theory Spec2Isabelle
  imports Complex_Main
begin

section \<open>Configurations and failures\<close>

text \<open>
  A configuration is a \<^verbatim>\<open>std::vector<dReal>\<close>.  The scalar type \<^verbatim>\<open>dReal\<close> is
  modelled by \<^typ>\<open>real\<close>: rounding, infinities and NaN are outside the model, every
  comparison of two distances is the comparison of two reals.

  C++ exceptions and undefined behaviour are values of \<open>error\<close>:
  \<^item> \<open>out_of_range\<close>: \<^verbatim>\<open>std::vector::at\<close> with a bad index;
  \<^item> \<open>bad_function_call\<close>: calling an empty \<^verbatim>\<open>boost::function\<close>;
  \<^item> \<open>bad_weak_ptr\<close>: locking an expired or empty \<^verbatim>\<open>boost::weak_ptr\<close>;
  \<^item> \<open>negative_edge\<close>: thrown by the graph searches of the library at an edge of negative
    weight;
  \<^item> \<open>undefined_behaviour\<close>: an unchecked \<^verbatim>\<open>operator[]\<close> past the end of a vector, a
    vertex descriptor that is not a vertex of the graph, or the read of a field that
    was never initialised.
\<close>

type_synonym dReal = real
type_synonym config = "dReal list"

datatype error = out_of_range | bad_function_call | bad_weak_ptr | negative_edge | undefined_behaviour

section \<open>SpatialTree (utils/spatialrep.h)\<close>

datatype ExtendType = ET_Failed | ET_Sucess | ET_Connected

record t_node =
  parent :: int
  q :: config

text \<open>
  What the tree asks of its planner: \<^verbatim>\<open>GetParameters()\<close> with the callbacks
  \<^verbatim>\<open>_diffstatefn\<close> (it overwrites its first argument, here it returns the new vector),
  \<^verbatim>\<open>_setstatefn\<close> (it only moves the robot) and \<^verbatim>\<open>_constraintfn\<close> (it returns a flag and
  may move its second argument), and the collision oracle
  \<^verbatim>\<open>CollisionFunctions::CheckCollision\<close> on a segment, a pure predicate that answers
  \<open>True\<close> when the segment collides.  Each callback is a \<^verbatim>\<open>boost::function\<close>: \<open>None\<close>
  is the empty one.  The source tests only \<^verbatim>\<open>_constraintfn\<close> before it calls it.
\<close>

record Planner =
  diffstatefn :: "(config \<Rightarrow> config \<Rightarrow> config) option"
  setstatefn :: "(config \<Rightarrow> unit) option"
  constraintfn :: "(config \<Rightarrow> config \<Rightarrow> bool \<times> config) option"
  CheckCollision :: "config \<Rightarrow> config \<Rightarrow> bool"

record SpatialTree =
  nodes :: "t_node list"
  distmetricfn :: "(config \<Rightarrow> config \<Rightarrow> dReal) option"
  fBestDist :: dReal
  fStepLength :: dReal
  vNewConfig :: config
  planner :: "Planner option"
  dof :: int

text \<open>
  The constructor: no node, no metric, no planner.  The step length is the \<^verbatim>\<open>float\<close>
  literal \<^verbatim>\<open>0.04f\<close>, that is \<open>5368709 / 2^27\<close>.
\<close>

definition SpatialTree_new :: SpatialTree where
  "SpatialTree_new =
     \<lparr>nodes = [], distmetricfn = None, fBestDist = 0, fStepLength = 5368709 / 134217728,
      vNewConfig = [], planner = None, dof = 0\<rparr>"

text \<open>\<^verbatim>\<open>std::vector::resize\<close>: cut, or fill with zeros.\<close>

definition resize :: "nat \<Rightarrow> config \<Rightarrow> config" where
  "resize n v = take n v @ replicate (n - length v) 0"

definition cReset :: "SpatialTree \<Rightarrow> Planner \<Rightarrow> int \<Rightarrow> SpatialTree" where
  "cReset t pl d =
     (let t1 = t\<lparr>planner := Some pl, nodes := []\<rparr>
      in if 0 < d then t1\<lparr>vNewConfig := resize (nat d) (vNewConfig t1), dof := d\<rparr> else t1)"

definition AddNode :: "SpatialTree \<Rightarrow> int \<Rightarrow> config \<Rightarrow> int \<times> SpatialTree" where
  "AddNode t p c =
     (let t' = t\<lparr>nodes := nodes t @ [\<lparr>parent = p, q = c\<rparr>]\<rparr>
      in (int (length (nodes t')) - 1, t'))"

text \<open>
  The scan of \<^verbatim>\<open>GetNN\<close>: \<open>i\<close> is the index of the node looked at, the pair is
  \<^verbatim>\<open>(ibest, fbest)\<close>.
\<close>

fun GetNN_loop ::
  "(config \<Rightarrow> config \<Rightarrow> dReal) \<Rightarrow> config \<Rightarrow> t_node list \<Rightarrow> int \<Rightarrow> int \<times> dReal \<Rightarrow> int \<times> dReal"
where
  "GetNN_loop dm c [] i best = best"
| "GetNN_loop dm c (n # ns) i (ibest, fbest) =
     (let f = dm c (q n)
      in GetNN_loop dm c ns (i + 1) (if ibest < 0 \<or> f < fbest then (i, f) else (ibest, fbest)))"

definition GetNN :: "SpatialTree \<Rightarrow> config \<Rightarrow> error + int \<times> SpatialTree" where
  "GetNN t c =
     (if nodes t = [] then Inr (- 1, t)
      else case distmetricfn t of
          None \<Rightarrow> Inl bad_function_call
        | Some dm \<Rightarrow>
            (let (ibest, fbest) = GetNN_loop dm c (nodes t) 0 (- 1, 0)
             in Inr (ibest, t\<lparr>fBestDist := fbest\<rparr>)))"

definition GetConfig :: "SpatialTree \<Rightarrow> int \<Rightarrow> error + config" where
  "GetConfig t inode =
     (if 0 \<le> inode \<and> nat inode < length (nodes t) then Inr (q (nodes t ! nat inode))
      else Inl out_of_range)"

text \<open>
  The \<^verbatim>\<open>for\<close> loop of \<^verbatim>\<open>Extend\<close> over the first \<^verbatim>\<open>_dof\<close> coordinates:
  \<^verbatim>\<open>_vNewConfig[i] = pnode->q[i] + _vNewConfig[i]*fdist\<close>.
\<close>

definition step_toward :: "int \<Rightarrow> config \<Rightarrow> config \<Rightarrow> dReal \<Rightarrow> config" where
  "step_toward n pq v fdist =
     map (\<lambda>i. if int i < n then pq ! i + v ! i * fdist else v ! i) [0..<length v]"

text \<open>
  One turn of the \<^verbatim>\<open>while(1)\<close> of \<^verbatim>\<open>Extend\<close> up to the collision query: either the call
  returns (\<open>Inl\<close>), or the tree comes back with the candidate in \<^verbatim>\<open>_vNewConfig\<close>.
\<close>

definition Extend_candidate ::
  "Planner \<Rightarrow> (config \<Rightarrow> config \<Rightarrow> dReal) \<Rightarrow> config \<Rightarrow> SpatialTree \<Rightarrow> t_node \<Rightarrow> int \<Rightarrow> bool
     \<Rightarrow> (error + ExtendType \<times> int \<times> SpatialTree) + SpatialTree"
where
  "Extend_candidate params dm pTargetConfig t pnode lastindex bHasAdded =
     (let fdist = dm pTargetConfig (q pnode)
      in if \<not> fStepLength t < fdist \<and> fdist \<le> (1 / 10) * fStepLength t
         then Inl (Inr (ET_Connected, lastindex, t))
         else
           let fdist = (if fStepLength t < fdist then fStepLength t / fdist else fdist)
           in case diffstatefn params of
                None \<Rightarrow> Inl (Inl bad_function_call)
              | Some diff \<Rightarrow>
                  let v = diff pTargetConfig (q pnode)
                  in if int (length v) < dof t \<or> int (length (q pnode)) < dof t
                     then Inl (Inl undefined_behaviour)
                     else
                       let t1 = t\<lparr>vNewConfig := step_toward (dof t) (q pnode) v fdist\<rparr>
                       in case constraintfn params of
                            None \<Rightarrow> Inr t1
                          | Some project \<Rightarrow>
                              (case setstatefn params of
                                 None \<Rightarrow> Inl (Inl bad_function_call)
                               | Some setstate \<Rightarrow>
                                   let (ok, v') = project (q pnode) (vNewConfig t1);
                                       t2 = t1\<lparr>vNewConfig := v'\<rparr>
                                   in if \<not> ok
                                      then Inl (Inr (if bHasAdded then ET_Sucess else ET_Failed,
                                                     lastindex, t2))
                                      else if dm (q pnode) v' \<le> (1 / 100) * fStepLength t
                                      then Inl (Inr (if bHasAdded then ET_Sucess else ET_Failed,
                                                     lastindex, t2))
                                      else Inr t2))"

text \<open>
  The whole turn: \<open>Inl\<close> is the value \<^verbatim>\<open>Extend\<close> returns, \<open>Inr\<close> the state
  \<^verbatim>\<open>(tree, pnode, lastindex)\<close> of the next turn (\<^verbatim>\<open>bHasAdded\<close> is then true).
\<close>

definition Extend_body ::
  "Planner \<Rightarrow> (config \<Rightarrow> config \<Rightarrow> dReal) \<Rightarrow> config \<Rightarrow> bool \<Rightarrow> SpatialTree \<Rightarrow> t_node \<Rightarrow> int \<Rightarrow> bool
     \<Rightarrow> (error + ExtendType \<times> int \<times> SpatialTree) + (SpatialTree \<times> t_node \<times> int)"
where
  "Extend_body params dm pTargetConfig bOneStep t pnode lastindex bHasAdded =
     (case Extend_candidate params dm pTargetConfig t pnode lastindex bHasAdded of
        Inl r \<Rightarrow> Inl r
      | Inr t1 \<Rightarrow>
          if CheckCollision params (q pnode) (vNewConfig t1)
          then Inl (Inr (if bHasAdded then ET_Sucess else ET_Failed, lastindex, t1))
          else
            let (lastindex', t2) = AddNode t1 lastindex (vNewConfig t1);
                pnode' = nodes t2 ! nat lastindex'
            in if bOneStep then Inl (Inr (ET_Connected, lastindex', t2))
               else Inr (t2, pnode', lastindex'))"

text \<open>The loop may run for ever: not returning is \<open>None\<close>.\<close>

partial_function (option) Extend_loop ::
  "Planner \<Rightarrow> (config \<Rightarrow> config \<Rightarrow> dReal) \<Rightarrow> config \<Rightarrow> bool \<Rightarrow> SpatialTree \<Rightarrow> t_node \<Rightarrow> int \<Rightarrow> bool
     \<Rightarrow> (error + ExtendType \<times> int \<times> SpatialTree) option"
where
  "Extend_loop params dm pTargetConfig bOneStep t pnode lastindex bHasAdded =
     (case Extend_body params dm pTargetConfig bOneStep t pnode lastindex bHasAdded of
        Inl r \<Rightarrow> Some r
      | Inr (t', pnode', lastindex') \<Rightarrow>
          Extend_loop params dm pTargetConfig bOneStep t' pnode' lastindex' True)"

definition Extend ::
  "SpatialTree \<Rightarrow> config \<Rightarrow> bool \<Rightarrow> (error + ExtendType \<times> int \<times> SpatialTree) option"
where
  "Extend t pTargetConfig bOneStep =
     (case GetNN t pTargetConfig of
        Inl e \<Rightarrow> Some (Inl e)
      | Inr (lastindex, t1) \<Rightarrow>
          if lastindex < 0 then Some (Inr (ET_Failed, lastindex, t1))
          else if length (nodes t1) \<le> nat lastindex then Some (Inl out_of_range)
          else
            (case planner t1 of
               None \<Rightarrow> Some (Inl bad_weak_ptr)
             | Some params \<Rightarrow>
                 (case distmetricfn t1 of
                    None \<Rightarrow> Some (Inl bad_function_call)
                  | Some dm \<Rightarrow>
                      Extend_loop params dm pTargetConfig bOneStep t1
                        (nodes t1 ! nat lastindex) lastindex False)))"

section \<open>The graph library under SpatialGraph\<close>

text \<open>
  \<^verbatim>\<open>s_graph\<close> is \<^verbatim>\<open>boost::adjacency_list<listS, vecS, undirectedS, no_property,
  property<edge_weight_t, s_cost>>\<close>.  The library is not part of the repository; the model
  follows its documentation.  With \<^verbatim>\<open>vecS\<close> a vertex descriptor is an index: the vertices
  of a graph are \<open>0, ..., num_vertices - 1\<close>.  The edges are kept in insertion order, each
  with its weight.
  \<^item> \<^verbatim>\<open>s_graph g(n)\<close> is a graph with \<open>n\<close> vertices and no edge;
  \<^item> \<^verbatim>\<open>add_vertex\<close> appends one vertex and returns its descriptor, the former vertex count;
  \<^item> \<^verbatim>\<open>add_edge(u, v, g)\<close> first grows the vertex set so that it holds \<open>u\<close> and \<open>v\<close>, and
    with \<^verbatim>\<open>listS\<close> it always inserts (parallel edges are allowed).  The source writes the
    weight through \<^verbatim>\<open>w_map[ed]\<close> right after the insertion; here \<open>add_edge\<close> takes it;
  \<^item> \<^verbatim>\<open>adjacent_vertices(v, g)\<close> lists the other end of every edge at \<open>v\<close>, in insertion
    order.
\<close>

type_synonym s_vertex = nat
type_synonym s_cost = dReal

record s_graph =
  num_vertices :: nat
  edges :: "(s_vertex \<times> s_vertex \<times> s_cost) list"

definition s_graph_new :: "nat \<Rightarrow> s_graph" where
  "s_graph_new n = \<lparr>num_vertices = n, edges = []\<rparr>"

definition add_vertex :: "s_graph \<Rightarrow> s_vertex \<times> s_graph" where
  "add_vertex g = (num_vertices g, g\<lparr>num_vertices := num_vertices g + 1\<rparr>)"

definition add_edge :: "s_vertex \<Rightarrow> s_vertex \<Rightarrow> s_cost \<Rightarrow> s_graph \<Rightarrow> bool \<times> s_graph" where
  "add_edge u v w g =
     (True, g\<lparr>num_vertices := max (num_vertices g) (max u v + 1), edges := edges g @ [(u, v, w)]\<rparr>)"

definition out_edges :: "s_vertex \<Rightarrow> s_graph \<Rightarrow> (s_vertex \<times> s_cost) list" where
  "out_edges v g =
     concat (map (\<lambda>(a, b, w). (if a = v then [(b, w)] else []) @ (if b = v then [(a, w)] else []))
       (edges g))"

definition adjacent_vertices :: "s_vertex \<Rightarrow> s_graph \<Rightarrow> s_vertex list" where
  "adjacent_vertices v g = map fst (out_edges v g)"

section \<open>SpatialGraph (utils/spatialrep.h)\<close>

text \<open>
  The \<^verbatim>\<open>vertex\<close> field of a node built by \<^verbatim>\<open>s_node()\<close> is never written: it is \<open>None\<close>.
  \<^verbatim>\<open>DistMetric::Eval\<close> is declared in a header that is not among the sources; every
  function that calls it takes it as the parameter \<open>Eval\<close>.
\<close>

record s_node =
  nconfig :: config
  vertex :: "s_vertex option"

definition s_node_default :: s_node where
  "s_node_default = \<lparr>nconfig = [], vertex = None\<rparr>"

record SpatialGraph =
  max_nodes :: nat
  neigh_thresh :: dReal
  node_list :: "s_node list"
  p_graph :: s_graph

text \<open>\<^verbatim>\<open>SpatialGraph()\<close>, with \<^verbatim>\<open>DMAXNODES = 100\<close> and \<^verbatim>\<open>DNTHRESH = 5\<close>.\<close>

definition SpatialGraph_default :: SpatialGraph where
  "SpatialGraph_default =
     \<lparr>max_nodes = 100, neigh_thresh = 5, node_list = [], p_graph = s_graph_new 0\<rparr>"

text \<open>
  \<^verbatim>\<open>SpatialGraph(int m_nodes, dReal n_thresh)\<close>: the \<^verbatim>\<open>int\<close> goes into the
  \<^verbatim>\<open>unsigned int max_nodes\<close>, and the graph is built by \<^verbatim>\<open>s_graph g(max_nodes)\<close>.
\<close>

definition SpatialGraph_new :: "int \<Rightarrow> dReal \<Rightarrow> SpatialGraph" where
  "SpatialGraph_new m_nodes n_thresh =
     (let m = nat (m_nodes mod 4294967296)
      in \<lparr>max_nodes = m, neigh_thresh = n_thresh, node_list = [], p_graph = s_graph_new m\<rparr>)"

definition addNode :: "SpatialGraph \<Rightarrow> config \<Rightarrow> s_vertex \<times> SpatialGraph" where
  "addNode g conf =
     (let (v, pg) = add_vertex (p_graph g);
          nn = \<lparr>nconfig = conf, vertex = Some v\<rparr>
      in (v, g\<lparr>p_graph := pg, node_list := node_list g @ [nn]\<rparr>))"

definition getNodes :: "SpatialGraph \<Rightarrow> int" where
  "getNodes g = int (length (node_list g))"

text \<open>\<^verbatim>\<open>getNode\<close> scans the whole list and keeps the last node whose handle is \<open>v\<close>.\<close>

definition getNode :: "SpatialGraph \<Rightarrow> s_vertex \<Rightarrow> s_node" where
  "getNode g v = fold (\<lambda>it n. if vertex it = Some v then it else n) (node_list g) s_node_default"

fun edgeExists_loop :: "s_vertex \<Rightarrow> s_vertex list \<Rightarrow> bool" where
  "edgeExists_loop u [] = False"
| "edgeExists_loop u (x # xs) = (if u = x then True else edgeExists_loop u xs)"

definition edgeExists :: "SpatialGraph \<Rightarrow> s_vertex \<Rightarrow> s_vertex \<Rightarrow> error + bool" where
  "edgeExists g u v =
     (if u = v then Inr True
      else if num_vertices (p_graph g) \<le> v then Inl undefined_behaviour
      else Inr (edgeExists_loop u (adjacent_vertices v (p_graph g))))"

definition addEdge ::
  "(config \<Rightarrow> config \<Rightarrow> dReal) \<Rightarrow> SpatialGraph \<Rightarrow> s_vertex \<Rightarrow> s_vertex \<Rightarrow> error + bool \<times> SpatialGraph"
where
  "addEdge Eval g u v =
     (case edgeExists g u v of
        Inl e \<Rightarrow> Inl e
      | Inr ex \<Rightarrow>
          if ex \<or> u = v then Inr (False, g)
          else
            let nu = getNode g u;
                nv = getNode g v;
                dist = Eval (nconfig nu) (nconfig nv)
            in if neigh_thresh g < dist then Inr (False, g)
               else
                 let (inserted, pg) = add_edge u v dist (p_graph g)
                 in if \<not> inserted then Inr (False, g\<lparr>p_graph := pg\<rparr>)
                    else Inr (True, g\<lparr>p_graph := pg\<rparr>))"

text \<open>The scan of \<^verbatim>\<open>findNN\<close> over \<^verbatim>\<open>node_list\<close>; \<open>acc\<close> is \<^verbatim>\<open>s_neighbors\<close>.\<close>

fun findNN_loop ::
  "(config \<Rightarrow> config \<Rightarrow> dReal) \<Rightarrow> SpatialGraph \<Rightarrow> s_vertex \<Rightarrow> s_node \<Rightarrow> s_node list \<Rightarrow> s_node list
     \<Rightarrow> error + s_node list"
where
  "findNN_loop Eval g n nn [] acc = Inr acc"
| "findNN_loop Eval g n nn (it # its) acc =
     (case vertex it of
        None \<Rightarrow> Inl undefined_behaviour
      | Some iv \<Rightarrow>
          (case edgeExists g n iv of
             Inl e \<Rightarrow> Inl e
           | Inr ex \<Rightarrow>
               if ex then findNN_loop Eval g n nn its acc
               else if Eval (nconfig nn) (nconfig it) \<le> neigh_thresh g
               then findNN_loop Eval g n nn its (acc @ [it])
               else findNN_loop Eval g n nn its acc))"

definition findNN ::
  "(config \<Rightarrow> config \<Rightarrow> dReal) \<Rightarrow> SpatialGraph \<Rightarrow> s_vertex \<Rightarrow> s_node list \<Rightarrow> error + int \<times> s_node list"
where
  "findNN Eval g n s_neighbors =
     (if length (node_list g) \<le> 1 then Inr (0, s_neighbors)
      else if length (node_list g) < n then Inr (0, s_neighbors)
      else
        let nn = getNode g n
        in case findNN_loop Eval g n nn (node_list g) [] of
             Inl e \<Rightarrow> Inl e
           | Inr s_neighbors' \<Rightarrow> Inr (int (length s_neighbors'), s_neighbors'))"

section \<open>The searches of the library\<close>

text \<open>
  \<^verbatim>\<open>boost::dijkstra_shortest_paths\<close> and \<^verbatim>\<open>boost::astar_search\<close> follow the pseudo-code of
  the library's documentation.  Every vertex starts white, at distance infinity (\<open>None\<close>)
  and as its own predecessor; the source is gray at distance 0.  Each turn takes the gray
  vertex of least cost out of the queue, relaxes its out-edges in order and blackens it.
  An edge \<open>(u, v)\<close> of weight \<open>w\<close> is relaxed when \<open>d[u] + w < d[v]\<close>: then
  \<open>d[v] := d[u] + w\<close>, \<open>cost[v] := d[v] + h(v)\<close>, \<open>p[v] := u\<close>, and \<open>v\<close>
  enters the queue if it is white (and, in A* only, again if it is black).  Dijkstra is
  the case \<open>h = 0\<close>.

  Two things the documentation leaves open are fixed here, and no theorem below depends on them:
  among vertices of equal cost the least index leaves the queue first, and distances are
  reals although the source hands the library a vector of \<^verbatim>\<open>int\<close> to keep them in.
\<close>

datatype default_color_type = white_color | gray_color | black_color

record bfs_state =
  p_map :: "s_vertex list"
  d_map :: "dReal option list"
  cost_map :: "dReal option list"
  color_map :: "default_color_type list"

definition bfs_init :: "nat \<Rightarrow> s_vertex \<Rightarrow> dReal \<Rightarrow> bfs_state" where
  "bfs_init n s c0 =
     \<lparr>p_map = [0..<n],
      d_map = (replicate n None)[s := Some 0],
      cost_map = (replicate n None)[s := Some c0],
      color_map = (replicate n white_color)[s := gray_color]\<rparr>"

definition queue_key :: "bfs_state \<Rightarrow> s_vertex \<Rightarrow> dReal" where
  "queue_key st v = (case cost_map st ! v of None \<Rightarrow> 0 | Some c \<Rightarrow> c)"

definition extract_min :: "bfs_state \<Rightarrow> s_vertex option" where
  "extract_min st =
     (case filter (\<lambda>v. color_map st ! v = gray_color) [0..<length (color_map st)] of
        [] \<Rightarrow> None
      | v # vs \<Rightarrow> Some (fold (\<lambda>x b. if queue_key st x < queue_key st b then x else b) vs v))"

definition relax ::
  "bool \<Rightarrow> (s_vertex \<Rightarrow> error + dReal) \<Rightarrow> s_vertex \<Rightarrow> s_vertex \<times> s_cost \<Rightarrow> bfs_state \<Rightarrow> error + bfs_state"
where
  "relax reopen h u e st =
     (case e of (v, w) \<Rightarrow>
        if w < 0 then Inl negative_edge
        else
          (case d_map st ! u of
             None \<Rightarrow> Inr st
           | Some du \<Rightarrow>
               if (case d_map st ! v of None \<Rightarrow> True | Some dv \<Rightarrow> du + w < dv)
               then
                 (case h v of
                    Inl x \<Rightarrow> Inl x
                  | Inr hv \<Rightarrow>
                      Inr (st\<lparr>d_map := (d_map st)[v := Some (du + w)],
                              cost_map := (cost_map st)[v := Some (du + w + hv)],
                              p_map := (p_map st)[v := u],
                              color_map := (color_map st)
                                [v := (if color_map st ! v = white_color \<or> reopen then gray_color
                                       else color_map st ! v)]\<rparr>))
               else Inr st))"

fun relax_all ::
  "bool \<Rightarrow> (s_vertex \<Rightarrow> error + dReal) \<Rightarrow> s_vertex \<Rightarrow> (s_vertex \<times> s_cost) list \<Rightarrow> bfs_state
     \<Rightarrow> error + bfs_state"
where
  "relax_all reopen h u [] st = Inr st"
| "relax_all reopen h u (e # es) st =
     (case relax reopen h u e st of
        Inl x \<Rightarrow> Inl x
      | Inr st' \<Rightarrow> relax_all reopen h u es st')"

definition finish_vertex :: "s_vertex \<Rightarrow> bfs_state \<Rightarrow> bfs_state" where
  "finish_vertex u st = st\<lparr>color_map := (color_map st)[u := black_color]\<rparr>"

function dijkstra_loop :: "s_graph \<Rightarrow> bfs_state \<Rightarrow> error + bfs_state" where
  "dijkstra_loop g st =
     (case extract_min st of
        None \<Rightarrow> Inr st
      | Some u \<Rightarrow>
          (case relax_all False (\<lambda>v. Inr 0) u (out_edges u g) st of
             Inl x \<Rightarrow> Inl x
           | Inr st' \<Rightarrow> dijkstra_loop g (finish_vertex u st')))"
  by pat_completeness auto


subsection \<open>The Dijkstra loop ends\<close>

lemma fold_pick_mem: "fold (\<lambda>x b. if P x b then x else b) vs v \<in> set (v # vs)"
  by (induction vs arbitrary: v) (auto split: if_splits)

lemma extract_min_gray:
  assumes "extract_min st = Some u"
  shows "u < length (color_map st) \<and> color_map st ! u = gray_color"
proof -
  let ?gs = "filter (\<lambda>v. color_map st ! v = gray_color) [0..<length (color_map st)]"
  from assms obtain v vs where gs: "?gs = v # vs"
    and u: "u = fold (\<lambda>x b. if queue_key st x < queue_key st b then x else b) vs v"
    by (auto simp: extract_min_def split: list.splits)
  have "u \<in> set (v # vs)" unfolding u by (rule fold_pick_mem)
  then have "u \<in> set ?gs" by (simp only: gs)
  then show ?thesis by simp
qed

lemma relax_black:
  assumes "relax False h u e st = Inr st'"
  shows "length (color_map st') = length (color_map st)
         \<and> (\<forall>i. color_map st' ! i = black_color \<longleftrightarrow> color_map st ! i = black_color)"
proof -
  obtain v w where e: "e = (v, w)" by (cases e)
  show ?thesis
  proof (cases "v < length (color_map st)")
    case True
    with assms show ?thesis
      by (auto simp: relax_def e nth_list_update split: if_splits option.splits sum.splits)
  next
    case False
    then have "(color_map st)[v := c] = color_map st" for c
      by (intro list_update_beyond) simp
    with assms show ?thesis
      by (auto simp: relax_def e split: if_splits option.splits sum.splits)
  qed
qed

lemma relax_all_black:
  "relax_all False h u es st = Inr st' \<Longrightarrow>
     length (color_map st') = length (color_map st)
     \<and> (\<forall>i. color_map st' ! i = black_color \<longleftrightarrow> color_map st ! i = black_color)"
proof (induction es arbitrary: st)
  case Nil
  then show ?case by simp
next
  case (Cons e es)
  from Cons.prems obtain st1 where r: "relax False h u e st = Inr st1"
    and rest: "relax_all False h u es st1 = Inr st'"
    by (auto split: sum.splits)
  from relax_black[OF r] Cons.IH[OF rest] show ?case by simp
qed

definition unfinished :: "bfs_state \<Rightarrow> nat set" where
  "unfinished st = {i. i < length (color_map st) \<and> color_map st ! i \<noteq> black_color}"

lemma unfinished_decreases:
  assumes "extract_min st = Some u" and "relax_all False h u es st = Inr st'"
  shows "card (unfinished (finish_vertex u st')) < card (unfinished st)"
proof -
  from extract_min_gray[OF assms(1)] have u: "u < length (color_map st)" "color_map st ! u = gray_color"
    by simp_all
  from relax_all_black[OF assms(2)] have len: "length (color_map st') = length (color_map st)"
    and blk: "\<And>i. color_map st' ! i = black_color \<longleftrightarrow> color_map st ! i = black_color" by simp_all
  have "unfinished (finish_vertex u st') \<subseteq> unfinished st - {u}"
    using len blk u by (auto simp: unfinished_def finish_vertex_def nth_list_update)
  moreover have "u \<in> unfinished st" using u by (simp add: unfinished_def)
  ultimately have "unfinished (finish_vertex u st') \<subset> unfinished st" by blast
  moreover have "finite (unfinished st)" by (simp add: unfinished_def)
  ultimately show ?thesis by (rule psubset_card_mono[rotated])
qed

termination dijkstra_loop
  by (relation "measure (\<lambda>(g, st). card (unfinished st))") (simp_all add: unfinished_decreases)

declare dijkstra_loop.simps [simp del]


definition dijkstra_shortest_paths :: "s_graph \<Rightarrow> s_vertex \<Rightarrow> error + bfs_state" where
  "dijkstra_shortest_paths g s = dijkstra_loop g (bfs_init (num_vertices g) s 0)"

text \<open>
  How \<^verbatim>\<open>astar_search\<close> ends: it returns when the queue is empty, or the visitor of the
  source throws \<^verbatim>\<open>found_goal\<close> when the goal is taken out of the queue; the
  predecessor vector is then as the search left it.
\<close>

datatype astar_exit = returned | found_goal "s_vertex list"

partial_function (option) astar_loop ::
  "s_graph \<Rightarrow> (s_vertex \<Rightarrow> error + dReal) \<Rightarrow> s_vertex \<Rightarrow> bfs_state \<Rightarrow> (error + astar_exit) option"
where
  "astar_loop g h goal st =
     (case extract_min st of
        None \<Rightarrow> Some (Inr returned)
      | Some u \<Rightarrow>
          if u = goal then Some (Inr (found_goal (p_map st)))
          else
            (case relax_all True h u (out_edges u g) st of
               Inl x \<Rightarrow> Some (Inl x)
             | Inr st' \<Rightarrow> astar_loop g h goal (finish_vertex u st')))"

definition astar_search ::
  "s_graph \<Rightarrow> s_vertex \<Rightarrow> (s_vertex \<Rightarrow> error + dReal) \<Rightarrow> s_vertex \<Rightarrow> (error + astar_exit) option"
where
  "astar_search g s h goal =
     (case h s of
        Inl x \<Rightarrow> Some (Inl x)
      | Inr hs \<Rightarrow> astar_loop g h goal (bfs_init (num_vertices g) s hs))"

section \<open>Path search in SpatialGraph (utils/spatialrep.h)\<close>

text \<open>
  The \<^verbatim>\<open>do ... while\<close> of \<^verbatim>\<open>findPathDK\<close>; it returns the last \<^verbatim>\<open>child\<close> and the path.
\<close>

partial_function (option) findPathDK_walk ::
  "SpatialGraph \<Rightarrow> s_vertex list \<Rightarrow> s_vertex \<Rightarrow> s_node list \<Rightarrow> (error + s_vertex \<times> s_node list) option"
where
  "findPathDK_walk g p child s_path =
     (if length p \<le> child then Some (Inl undefined_behaviour)
      else
        let s_path' = getNode g child # s_path;
            child' = p ! child
        in if length p \<le> child' then Some (Inl undefined_behaviour)
           else if child' \<noteq> p ! child' then findPathDK_walk g p child' s_path'
           else Some (Inr (child', s_path')))"

definition findPathDK ::
  "SpatialGraph \<Rightarrow> s_node \<Rightarrow> s_node \<Rightarrow> s_node list \<Rightarrow> (error + bool \<times> s_node list) option"
where
  "findPathDK g f t s_path =
     (case vertex f of
        None \<Rightarrow> Some (Inl undefined_behaviour)
      | Some start \<Rightarrow>
          if num_vertices (p_graph g) \<le> start then Some (Inl undefined_behaviour)
          else
            (case dijkstra_shortest_paths (p_graph g) start of
               Inl x \<Rightarrow> Some (Inl x)
             | Inr st \<Rightarrow>
                 (case vertex t of
                    None \<Rightarrow> Some (Inl undefined_behaviour)
                  | Some child \<Rightarrow>
                      (case findPathDK_walk g (p_map st) child s_path of
                         None \<Rightarrow> None
                       | Some (Inl x) \<Rightarrow> Some (Inl x)
                       | Some (Inr (child', s_path')) \<Rightarrow>
                           if child' = start then Some (Inr (False, s_path'))
                           else Some (Inr (True, f # s_path'))))))"

text \<open>
  \<^verbatim>\<open>distance_heuristic\<close> reads the array \<^verbatim>\<open>node_map\<close>, a copy of \<^verbatim>\<open>node_list\<close>, at the
  vertex descriptors themselves.
\<close>

definition distance_heuristic ::
  "(config \<Rightarrow> config \<Rightarrow> dReal) \<Rightarrow> s_node list \<Rightarrow> s_vertex \<Rightarrow> s_vertex \<Rightarrow> error + dReal"
where
  "distance_heuristic Eval node_map goal u =
     (if length node_map \<le> goal \<or> length node_map \<le> u then Inl undefined_behaviour
      else Inr (Eval (nconfig (node_map ! goal)) (nconfig (node_map ! u))))"

text \<open>The \<^verbatim>\<open>for (v = goal;; v = p[v])\<close> of the \<^verbatim>\<open>catch\<close> block of \<^verbatim>\<open>findPathAS\<close>.\<close>

partial_function (option) findPathAS_walk ::
  "SpatialGraph \<Rightarrow> s_vertex list \<Rightarrow> s_vertex \<Rightarrow> s_node list \<Rightarrow> (error + s_node list) option"
where
  "findPathAS_walk g p v s_path =
     (if length p \<le> v then Some (Inl undefined_behaviour)
      else
        let s_path' = getNode g v # s_path
        in if p ! v = v then Some (Inr s_path') else findPathAS_walk g p (p ! v) s_path')"

definition findPathAS ::
  "(config \<Rightarrow> config \<Rightarrow> dReal) \<Rightarrow> SpatialGraph \<Rightarrow> s_node \<Rightarrow> s_node \<Rightarrow> s_node list
     \<Rightarrow> (error + bool \<times> s_node list) option"
where
  "findPathAS Eval g f t s_path =
     (case vertex f of
        None \<Rightarrow> Some (Inl undefined_behaviour)
      | Some start \<Rightarrow>
          (case vertex t of
             None \<Rightarrow> Some (Inl undefined_behaviour)
           | Some goal \<Rightarrow>
               if num_vertices (p_graph g) \<le> start then Some (Inl undefined_behaviour)
               else
                 (case astar_search (p_graph g) start
                         (distance_heuristic Eval (node_list g) goal) goal of
                    None \<Rightarrow> None
                  | Some (Inl x) \<Rightarrow> Some (Inl x)
                  | Some (Inr returned) \<Rightarrow> Some (Inr (True, s_path))
                  | Some (Inr (found_goal p)) \<Rightarrow>
                      (case findPathAS_walk g p goal s_path of
                         None \<Rightarrow> None
                       | Some (Inl x) \<Rightarrow> Some (Inl x)
                       | Some (Inr s_path') \<Rightarrow> Some (Inr (True, s_path'))))))"


section \<open>SBLPlanner (planners/sblplanner.h)\<close>

text \<open>
  Of the parameter object the planner reads the two end configurations and \<^verbatim>\<open>GetDOF()\<close>.
  The sampler is the sequence of its outcomes: \<open>p_sampler k\<close> is what the call number
  \<open>k\<close> of \<^verbatim>\<open>GenSingleSample\<close> produces, \<open>None\<close> when it fails.  The trajectory is the
  list of the points given to \<^verbatim>\<open>AddPoint\<close>.  The two trees exist once \<^verbatim>\<open>InitPlan\<close> has
  run, and \<^verbatim>\<open>PlanPath\<close> touches them only behind its test of \<^verbatim>\<open>p_parameters\<close>.
\<close>

record PRMParams =
  vinitialconfig :: config
  vgoalconfig :: config
  GetDOF :: int

record SBLPlanner =
  p_parameters :: "PRMParams option"
  t_start :: SpatialTree
  t_goal :: SpatialTree
  p_sampler :: "nat \<Rightarrow> config option"
  samples_drawn :: nat
  l_pathnodes :: "s_node list"
  v_random_config :: config
  b_connected :: bool

definition SBLPlanner_new :: SBLPlanner where
  "SBLPlanner_new =
     \<lparr>p_parameters = None, t_start = SpatialTree_new, t_goal = SpatialTree_new,
      p_sampler = (\<lambda>k. None), samples_drawn = 0, l_pathnodes = [], v_random_config = [],
      b_connected = False\<rparr>"

definition InitPlan :: "SBLPlanner \<Rightarrow> PRMParams \<Rightarrow> int \<Rightarrow> (nat \<Rightarrow> config option) \<Rightarrow> bool \<times> SBLPlanner" where
  "InitPlan pl pparams activedof sampler =
     (True, pl\<lparr>p_parameters := Some pparams,
               v_random_config := resize (nat activedof) (v_random_config pl),
               p_sampler := sampler, samples_drawn := 0,
               t_goal := SpatialTree_new, t_start := SpatialTree_new\<rparr>)"

definition GenSingleSample :: "SBLPlanner \<Rightarrow> bool \<times> SBLPlanner" where
  "GenSingleSample pl =
     (case p_sampler pl (samples_drawn pl) of
        None \<Rightarrow> (False, pl\<lparr>samples_drawn := samples_drawn pl + 1\<rparr>)
      | Some c \<Rightarrow> (True, pl\<lparr>samples_drawn := samples_drawn pl + 1, v_random_config := c\<rparr>))"

definition swap_trees :: "SBLPlanner \<Rightarrow> SBLPlanner" where
  "swap_trees pl = pl\<lparr>t_start := t_goal pl, t_goal := t_start pl\<rparr>"

text \<open>Sequencing of calls that may throw or not return.\<close>

definition bind_result :: "(error + 'a) option \<Rightarrow> ('a \<Rightarrow> (error + 'b) option) \<Rightarrow> (error + 'b) option" where
  "bind_result m k = (case m of None \<Rightarrow> None | Some (Inl e) \<Rightarrow> Some (Inl e) | Some (Inr x) \<Rightarrow> k x)"

text \<open>
  One turn of the \<^verbatim>\<open>while(!b_connected)\<close> of \<^verbatim>\<open>buildTrees\<close>.  The \<^verbatim>\<open>continue\<close> after a
  failed extension skips the swap.
\<close>

definition buildTrees_turn :: "int \<Rightarrow> int \<Rightarrow> SBLPlanner \<Rightarrow> (error + SBLPlanner) option" where
  "buildTrees_turn start_id goal_id pl0 =
     (case GenSingleSample pl0 of
        (False, pl) \<Rightarrow> Some (Inr (swap_trees pl))
      | (True, pl) \<Rightarrow>
          bind_result (Some (GetConfig (t_start pl) start_id)) (\<lambda>c0.
          bind_result (Extend (t_start pl) c0 False) (\<lambda>(et0, i0, ts1).
          bind_result (Extend ts1 (v_random_config pl) False) (\<lambda>(ets, i_start_index, ts2).
            if ets = ET_Failed then Some (Inr (pl\<lparr>t_start := ts2\<rparr>))
            else
              bind_result (Some (GetConfig (t_goal pl) goal_id)) (\<lambda>cg.
              bind_result (Extend (t_goal pl) cg False) (\<lambda>(et1, i1, tg1).
              bind_result (Some (GetConfig ts2 i_start_index)) (\<lambda>c1.
              bind_result (Extend tg1 c1 False) (\<lambda>(etg, i_goal_index, tg2).
                Some (Inr (swap_trees
                  (pl\<lparr>t_start := ts2, t_goal := tg2,
                      b_connected := (if etg = ET_Connected then True else b_connected pl)\<rparr>)))))))))))"

partial_function (option) buildTrees :: "int \<Rightarrow> int \<Rightarrow> SBLPlanner \<Rightarrow> (error + SBLPlanner) option" where
  "buildTrees start_id goal_id pl =
     (if b_connected pl then Some (Inr pl)
      else
        (case buildTrees_turn start_id goal_id pl of
           None \<Rightarrow> None
         | Some (Inl e) \<Rightarrow> Some (Inl e)
         | Some (Inr pl') \<Rightarrow> buildTrees start_id goal_id pl'))"

text \<open>
  The \<^verbatim>\<open>FOREACH\<close> at the end of \<^verbatim>\<open>PlanPath\<close>: one point of \<^verbatim>\<open>GetDOF()\<close> coordinates for
  each node of \<^verbatim>\<open>l_pathnodes\<close>.
\<close>

fun AddPoints :: "int \<Rightarrow> s_node list \<Rightarrow> config list \<Rightarrow> error + config list" where
  "AddPoints n [] ptraj = Inr ptraj"
| "AddPoints n (itnode # rest) ptraj =
     (if int (length (nconfig itnode)) < n then Inl undefined_behaviour
      else AddPoints n rest (ptraj @ [take (nat n) (nconfig itnode)]))"

definition PlanPath :: "SBLPlanner \<Rightarrow> config list \<Rightarrow> (error + bool \<times> config list \<times> SBLPlanner) option" where
  "PlanPath pl ptraj =
     (case p_parameters pl of
        None \<Rightarrow> Some (Inr (False, ptraj, pl))
      | Some params \<Rightarrow>
          let (s_id, ts) = AddNode (t_start pl) 0 (vinitialconfig params);
              (g_id, tg) = AddNode (t_goal pl) 1000 (vgoalconfig params)
          in bind_result (buildTrees s_id g_id (pl\<lparr>t_start := ts, t_goal := tg\<rparr>)) (\<lambda>pl'.
               case AddPoints (GetDOF params) (l_pathnodes pl') ptraj of
                 Inl e \<Rightarrow> Some (Inl e)
               | Inr ptraj' \<Rightarrow> Some (Inr (True, ptraj', pl'))))"

section \<open>Notions used in the statements\<close>

text \<open>A metric to try the theorems on: the sum of the absolute coordinate differences.\<close>

definition manhattan :: "config \<Rightarrow> config \<Rightarrow> dReal" where
  "manhattan a b = sum_list (map2 (\<lambda>x y. \<bar>x - y\<bar>) a b)"

text \<open>An edge between \<open>u\<close> and \<open>v\<close> is stored, in either direction.\<close>

definition edge_between :: "SpatialGraph \<Rightarrow> s_vertex \<Rightarrow> s_vertex \<Rightarrow> bool" where
  "edge_between g u v =
     list_ex (\<lambda>(a, b, w). (a = u \<and> b = v) \<or> (a = v \<and> b = u)) (edges (p_graph g))"

text \<open>The graphs the interface of SpatialGraph can produce.\<close>

inductive built :: "(config \<Rightarrow> config \<Rightarrow> dReal) \<Rightarrow> SpatialGraph \<Rightarrow> bool"
  for Eval :: "config \<Rightarrow> config \<Rightarrow> dReal"
where
  built_default: "built Eval SpatialGraph_default"
| built_new: "built Eval (SpatialGraph_new m_nodes n_thresh)"
| built_addNode: "built Eval g \<Longrightarrow> built Eval (snd (addNode g conf))"
| built_addEdge: "built Eval g \<Longrightarrow> addEdge Eval g u v = Inr (ok, g') \<Longrightarrow> built Eval g'"

text \<open>Consecutive calls of \<^verbatim>\<open>addNode\<close>, with the handles they return.\<close>

fun addNodes :: "SpatialGraph \<Rightarrow> config list \<Rightarrow> s_vertex list \<times> SpatialGraph" where
  "addNodes g [] = ([], g)"
| "addNodes g (conf # confs) =
     (let (v, g1) = addNode g conf; (vs, g2) = addNodes g1 confs in (v # vs, g2))"

text \<open>Every stored handle is a vertex of the graph, and no two nodes share one.\<close>

definition graph_inv :: "SpatialGraph \<Rightarrow> bool" where
  "graph_inv g \<longleftrightarrow>
     distinct (map vertex (node_list g)) \<and>
     list_all (\<lambda>n. case vertex n of None \<Rightarrow> False | Some v \<Rightarrow> v < num_vertices (p_graph g)) (node_list g)"

text \<open>A chain of edges leads from \<open>a\<close> to \<open>b\<close>.\<close>

inductive path_between :: "s_graph \<Rightarrow> s_vertex \<Rightarrow> s_vertex \<Rightarrow> bool" for pg :: s_graph and a :: s_vertex where
  path_refl: "path_between pg a a"
| path_step: "path_between pg a u \<Longrightarrow> v \<in> set (adjacent_vertices u pg) \<Longrightarrow> path_between pg a v"

text \<open>
  The segment of the first collision query of \<^verbatim>\<open>Extend\<close>, when the call gets that far:
  from the nearest node to the candidate of the first turn.
\<close>

definition Extend_first_query :: "SpatialTree \<Rightarrow> config \<Rightarrow> (config \<times> config) option" where
  "Extend_first_query t pTargetConfig =
     (case GetNN t pTargetConfig of
        Inl e \<Rightarrow> None
      | Inr (lastindex, t1) \<Rightarrow>
          if lastindex < 0 \<or> length (nodes t1) \<le> nat lastindex then None
          else
            (case planner t1 of
               None \<Rightarrow> None
             | Some params \<Rightarrow>
                 (case distmetricfn t1 of
                    None \<Rightarrow> None
                  | Some dm \<Rightarrow>
                      (case Extend_candidate params dm pTargetConfig t1
                              (nodes t1 ! nat lastindex) lastindex False of
                         Inl r \<Rightarrow> None
                       | Inr t2 \<Rightarrow> Some (q (nodes t1 ! nat lastindex), vNewConfig t2)))))"



text \<open>
  What the search has discovered lies in the component of the source.
\<close>

definition discovered_ok :: "s_graph \<Rightarrow> s_vertex \<Rightarrow> bfs_state \<Rightarrow> bool" where
  "discovered_ok pg s st \<longleftrightarrow>
     (\<forall>v < length (color_map st). color_map st ! v \<noteq> white_color \<longrightarrow> path_between pg s v)"

text \<open>
  Only a vertex that the search has discovered has a predecessor other than itself.
\<close>

definition pred_ok :: "bfs_state \<Rightarrow> bool" where
  "pred_ok st \<longleftrightarrow>
     length (p_map st) = length (color_map st) \<and>
     (\<forall>v < length (p_map st). p_map st ! v \<noteq> v \<longrightarrow> color_map st ! v \<noteq> white_color)"

text \<open>
  Objects to try the theorems on.  A planner in free space and one whose oracle rejects
  every segment, both with plain subtraction as \<^verbatim>\<open>_diffstatefn\<close> and no constraint; a
  tree on the real line with the root at 0; the default graph with the nodes \<open>[0]\<close> and
  \<open>[1]\<close>, without an edge and with the edge between them; a tree planner whose trees
  carry a metric and a planner, with the start at 0, the goal at 0.001 and a sampler
  that always draws 0.
\<close>

definition free_space :: Planner where
  "free_space =
     \<lparr>diffstatefn = Some (map2 (\<lambda>x y. x - y)), setstatefn = Some (\<lambda>c. ()), constraintfn = None,
      CheckCollision = (\<lambda>a b. False)\<rparr>"

definition blocked_space :: Planner where
  "blocked_space =
     \<lparr>diffstatefn = Some (map2 (\<lambda>x y. x - y)), setstatefn = Some (\<lambda>c. ()), constraintfn = None,
      CheckCollision = (\<lambda>a b. True)\<rparr>"

definition line_tree :: "Planner \<Rightarrow> SpatialTree" where
  "line_tree pl = snd (AddNode (SpatialTree_new\<lparr>distmetricfn := Some manhattan, planner := Some pl, dof := 1\<rparr>) 0 [0])"

text \<open>
  Trees and planners that lack a part: the tree that \<^verbatim>\<open>InitPlan\<close> and \<^verbatim>\<open>PlanPath\<close>
  build, without metric and planner; the same with the metric only; the rejecting planner
  without \<^verbatim>\<open>_diffstatefn\<close>, and with a constraint that accepts every candidate but no
  \<^verbatim>\<open>_setstatefn\<close>; the tree on the line with \<^verbatim>\<open>_dof\<close> 2 over its one coordinate; and the
  tree on the line with the step length -1 and a function that returns -1/2 for a
  distance.
\<close>

definition bare_tree :: SpatialTree where
  "bare_tree = snd (AddNode SpatialTree_new 0 [0])"

definition metric_only_tree :: SpatialTree where
  "metric_only_tree = snd (AddNode (SpatialTree_new\<lparr>distmetricfn := Some manhattan\<rparr>) 0 [0])"

definition no_diff_space :: Planner where
  "no_diff_space = blocked_space\<lparr>diffstatefn := None\<rparr>"

definition keep_config :: "config \<Rightarrow> config \<Rightarrow> bool \<times> config" where
  "keep_config a b = (True, b)"

definition no_setstate_space :: Planner where
  "no_setstate_space = blocked_space\<lparr>constraintfn := Some keep_config, setstatefn := None\<rparr>"

definition wide_tree :: SpatialTree where
  "wide_tree = (line_tree blocked_space)\<lparr>dof := 2\<rparr>"

definition below_zero :: "config \<Rightarrow> config \<Rightarrow> dReal" where
  "below_zero a b = - (1 / 2)"

definition backward_tree :: SpatialTree where
  "backward_tree = (line_tree free_space)\<lparr>fStepLength := - 1, distmetricfn := Some below_zero\<rparr>"

text \<open>What a call of \<^verbatim>\<open>Extend\<close> returns, with the node sequence in place of the tree.\<close>

definition Extend_nodes ::
  "(error + ExtendType \<times> int \<times> SpatialTree) option \<Rightarrow> (error + ExtendType \<times> int \<times> t_node list) option"
where
  "Extend_nodes r = map_option (map_sum id (\<lambda>(et, i, t). (et, i, nodes t))) r"

definition two_nodes :: SpatialGraph where
  "two_nodes = snd (addNodes SpatialGraph_default [[0], [1]])"

definition two_linked :: SpatialGraph where
  "two_linked = (case addEdge manhattan two_nodes 0 1 of Inr (ok, g) \<Rightarrow> g | Inl e \<Rightarrow> two_nodes)"

definition tree_ready :: SpatialTree where
  "tree_ready = SpatialTree_new\<lparr>distmetricfn := Some manhattan, planner := Some free_space, dof := 1\<rparr>"

definition sbl_ready :: SBLPlanner where
  "sbl_ready =
     (snd (InitPlan SBLPlanner_new \<lparr>vinitialconfig = [0], vgoalconfig = [1 / 1000], GetDOF = 1\<rparr> 1
            (\<lambda>k. Some [0])))
     \<lparr>t_start := tree_ready, t_goal := tree_ready\<rparr>"

section \<open>Properties of the tree\<close>


lemma AddNode_index: "fst (AddNode t p c) = int (length (nodes t))"
  by (simp add: AddNode_def Let_def)

text \<open>
  C10.  \<^verbatim>\<open>AddNode(p, q)\<close> always returns, for every tree, every parent value and every
  configuration; what it returns is the new node count minus one, and \<^verbatim>\<open>GetConfig\<close> of
  that index on the new tree is exactly the configuration that was appended.
\<close>

theorem AddNode_GetConfig_roundtrip:
  "fst (AddNode t p c) = int (length (nodes (snd (AddNode t p c)))) - 1
   \<and> GetConfig (snd (AddNode t p c)) (fst (AddNode t p c)) = Inr c"
  by (simp add: AddNode_def GetConfig_def Let_def)

lemma nth_Cons_shift:
  "i + 1 \<le> k \<Longrightarrow> (n # ns) ! nat (k - i) = ns ! nat (k - (i + 1))" for i k :: int
proof -
  assume "i + 1 \<le> k"
  then have "nat (k - i) = Suc (nat (k - (i + 1)))" by linarith
  then show ?thesis by simp
qed

lemma GetNN_loop_index:
  "GetNN_loop dm c ns i (ib, fb) = (ib', fb') \<Longrightarrow>
     (ib' = ib \<and> fb' = fb) \<or>
     (i \<le> ib' \<and> ib' < i + int (length ns) \<and> fb' = dm c (q (ns ! nat (ib' - i))))"
proof (induction ns arbitrary: i ib fb)
  case Nil
  then show ?case by simp
next
  case (Cons n ns)
  define s where "s = (if ib < 0 \<or> dm c (q n) < fb then (i, dm c (q n)) else (ib, fb))"
  from Cons.prems have run: "GetNN_loop dm c ns (i + 1) (fst s, snd s) = (ib', fb')"
    by (simp add: s_def Let_def)
  from Cons.IH[OF run] consider
      (same) "ib' = fst s" "fb' = snd s"
    | (later) "i + 1 \<le> ib'" "ib' < i + 1 + int (length ns)" "fb' = dm c (q (ns ! nat (ib' - (i + 1))))"
    by blast
  then show ?case
  proof cases
    case same
    show ?thesis
    proof (cases "ib < 0 \<or> dm c (q n) < fb")
      case True
      with same have "ib' = i" "fb' = dm c (q n)" by (simp_all add: s_def)
      then show ?thesis by simp
    next
      case False
      with same have "ib' = ib" "fb' = fb" by (simp_all add: s_def)
      then show ?thesis by simp
    qed
  next
    case later
    from later(1) have "(n # ns) ! nat (ib' - i) = ns ! nat (ib' - (i + 1))"
      by (rule nth_Cons_shift)
    with later show ?thesis by simp
  qed
qed

lemma GetNN_loop_min:
  "GetNN_loop dm c ns i (ib, fb) = (ib', fb') \<Longrightarrow> 0 \<le> i \<Longrightarrow>
     (\<forall>n \<in> set ns. fb' \<le> dm c (q n)) \<and> (0 \<le> ib \<longrightarrow> fb' \<le> fb)"
proof (induction ns arbitrary: i ib fb)
  case Nil
  then show ?case by simp
next
  case (Cons n ns)
  define s where "s = (if ib < 0 \<or> dm c (q n) < fb then (i, dm c (q n)) else (ib, fb))"
  from Cons.prems have run: "GetNN_loop dm c ns (i + 1) (fst s, snd s) = (ib', fb')"
    by (simp add: s_def Let_def)
  from Cons.prems(2) have "0 \<le> i + 1" by simp
  from Cons.IH[OF run this] have rest: "\<forall>m \<in> set ns. fb' \<le> dm c (q m)"
    and le: "0 \<le> fst s \<longrightarrow> fb' \<le> snd s" by simp_all
  show ?case
  proof (cases "ib < 0 \<or> dm c (q n) < fb")
    case True
    then have s: "s = (i, dm c (q n))" by (simp add: s_def)
    with le Cons.prems(2) have "fb' \<le> dm c (q n)" by simp
    with rest True show ?thesis by auto
  next
    case False
    then have s: "s = (ib, fb)" by (simp add: s_def)
    with le False have "fb' \<le> fb" by simp
    with rest False show ?thesis by auto
  qed
qed

lemma GetNN_nonempty:
  assumes "nodes t \<noteq> []" and "distmetricfn t = Some dm"
  shows "\<exists>ib. GetNN t c = Inr (ib, t\<lparr>fBestDist := dm c (q (nodes t ! nat ib))\<rparr>)
           \<and> 0 \<le> ib \<and> nat ib < length (nodes t)
           \<and> (\<forall>n \<in> set (nodes t). dm c (q (nodes t ! nat ib)) \<le> dm c (q n))"
proof -
  obtain ib fb where run: "GetNN_loop dm c (nodes t) 0 (- 1, 0) = (ib, fb)"
    by (cases "GetNN_loop dm c (nodes t) 0 (- 1, 0)")
  obtain n ns where ns: "nodes t = n # ns" using assms(1) by (cases "nodes t") auto
  from run have run': "GetNN_loop dm c ns 1 (0, dm c (q n)) = (ib, fb)"
    by (simp add: ns Let_def)
  from GetNN_loop_index[OF run'] have "0 \<le> ib" by auto
  from GetNN_loop_index[OF run] this
  have rng: "ib < int (length (nodes t))" and val: "fb = dm c (q (nodes t ! nat ib))"
    by auto
  from GetNN_loop_min[OF run] have "\<forall>m \<in> set (nodes t). fb \<le> dm c (q m)" by simp
  with run assms \<open>0 \<le> ib\<close> rng val show ?thesis
    by (auto simp: GetNN_def)
qed

lemma line_tree_simps:
  "nodes (line_tree pl) = [\<lparr>parent = 0, q = [0]\<rparr>]"
  "distmetricfn (line_tree pl) = Some manhattan"
  "planner (line_tree pl) = Some pl"
  "fStepLength (line_tree pl) = 5368709 / 134217728"
  "dof (line_tree pl) = 1"
  by (simp_all add: line_tree_def AddNode_def SpatialTree_new_def)

text \<open>
  C6, as the code has it.  On a tree whose metric and planner are set, with distances to
  the target that are not negative: if some node lies closer to the target than 0.1 times
  the step length (so the nearest one does), \<^verbatim>\<open>Extend\<close> returns \<^verbatim>\<open>ET_Connected\<close> and the
  node sequence of the tree is unchanged.
\<close>

theorem Extend_near_target_Connected:
  assumes metric: "distmetricfn t = Some dm" and pl: "planner t = Some params"
    and near: "n \<in> set (nodes t)" "dm target (q n) < (1 / 10) * fStepLength t"
    and nonneg: "\<forall>m \<in> set (nodes t). 0 \<le> dm target (q m)"
  shows "\<exists>i t'. Extend t target bOneStep = Some (Inr (ET_Connected, i, t')) \<and> nodes t' = nodes t"
proof -
  from near(1) have ne: "nodes t \<noteq> []" by auto
  from GetNN_nonempty[OF ne metric, of target] obtain ib where
    nn: "GetNN t target = Inr (ib, t\<lparr>fBestDist := dm target (q (nodes t ! nat ib))\<rparr>)"
    and ib: "0 \<le> ib" "nat ib < length (nodes t)"
    and least: "\<forall>m \<in> set (nodes t). dm target (q (nodes t ! nat ib)) \<le> dm target (q m)"
    by blast
  let ?t1 = "t\<lparr>fBestDist := dm target (q (nodes t ! nat ib))\<rparr>"
  let ?p = "nodes t ! nat ib"
  have d1: "dm target (q ?p) < (1 / 10) * fStepLength t" using least near by fastforce
  have d0: "0 \<le> dm target (q ?p)" using nonneg ib(2) by simp
  from d0 d1 have d2: "\<not> fStepLength t < dm target (q ?p)" by simp
  have cand: "Extend_candidate params dm target ?t1 ?p ib False = Inl (Inr (ET_Connected, ib, ?t1))"
    using d1 d2 by (simp add: Extend_candidate_def)
  have "Extend_loop params dm target bOneStep ?t1 ?p ib False = Some (Inr (ET_Connected, ib, ?t1))"
    by (subst Extend_loop.simps) (simp add: Extend_body_def cand)
  then have "Extend t target bOneStep = Some (Inr (ET_Connected, ib, ?t1))"
    using nn ib metric pl by (simp add: Extend_def)
  then show ?thesis by simp
qed

theorem Extend_near_target_Connected_witness:
  "manhattan [1 / 1000] [0] < (1 / 10) * fStepLength (line_tree free_space)
   \<and> (\<exists>i t'. Extend (line_tree free_space) [1 / 1000] False = Some (Inr (ET_Connected, i, t'))
         \<and> nodes t' = nodes (line_tree free_space))"
proof -
  have near: "manhattan [1 / 1000] (q \<lparr>parent = 0, q = [0]\<rparr>) < (1 / 10) * fStepLength (line_tree free_space)"
    by (simp add: line_tree_simps manhattan_def)
  have nonneg: "\<forall>m \<in> set (nodes (line_tree free_space)). 0 \<le> manhattan [1 / 1000] (q m)"
    by (simp add: line_tree_simps manhattan_def)
  have mem: "\<lparr>parent = 0, q = [0]\<rparr> \<in> set (nodes (line_tree free_space))"
    by (simp add: line_tree_simps)
  from Extend_near_target_Connected[OF line_tree_simps(2) line_tree_simps(3) mem near nonneg, of False] near
  show ?thesis by simp
qed

text \<open>
  C6 as stated fails on three non-empty trees, each with the target closer to the root
  than 0.1 times the step length.  The tree that \<^verbatim>\<open>InitPlan\<close> and \<^verbatim>\<open>PlanPath\<close> build has
  no metric: \<^verbatim>\<open>GetNN\<close> calls the empty \<^verbatim>\<open>_distmetricfn\<close> and \<^verbatim>\<open>Extend\<close> throws
  \<^verbatim>\<open>bad_function_call\<close>.  With the metric set and the planner missing, \<^verbatim>\<open>Extend\<close> throws
  \<^verbatim>\<open>bad_weak_ptr\<close>.  With a negative step length and a negative distance the first test
  of the loop sends the call on, and with \<^verbatim>\<open>bOneStep\<close> it appends a node.
\<close>

theorem Extend_near_target_throws:
  "nodes bare_tree \<noteq> []
   \<and> Extend bare_tree [0] False = Some (Inl bad_function_call)
   \<and> nodes metric_only_tree \<noteq> []
   \<and> manhattan [0] [0] < (1 / 10) * fStepLength metric_only_tree
   \<and> Extend metric_only_tree [0] False = Some (Inl bad_weak_ptr)
   \<and> nodes backward_tree \<noteq> []
   \<and> below_zero [1] [0] < (1 / 10) * fStepLength backward_tree
   \<and> Extend_nodes (Extend backward_tree [1] True)
        = Some (Inr (ET_Connected, 1, [\<lparr>parent = 0, q = [0]\<rparr>, \<lparr>parent = 0, q = [2]\<rparr>]))"
proof -
  have a: "nodes bare_tree \<noteq> []" "Extend bare_tree [0] False = Some (Inl bad_function_call)"
    by (simp_all add: bare_tree_def Extend_def GetNN_def AddNode_def SpatialTree_new_def)
  have b: "nodes metric_only_tree \<noteq> []"
    "manhattan [0] [0] < (1 / 10) * fStepLength metric_only_tree"
    "Extend metric_only_tree [0] False = Some (Inl bad_weak_ptr)"
    by (simp_all add: metric_only_tree_def Extend_def GetNN_def AddNode_def SpatialTree_new_def
        manhattan_def Let_def)
  have c: "nodes backward_tree \<noteq> []" "below_zero [1] [0] < (1 / 10) * fStepLength backward_tree"
    by (simp_all add: backward_tree_def line_tree_simps below_zero_def)
  have d: "Extend_nodes (Extend backward_tree [1] True)
        = Some (Inr (ET_Connected, 1, [\<lparr>parent = 0, q = [0]\<rparr>, \<lparr>parent = 0, q = [2]\<rparr>]))"
    by (simp add: Extend_def GetNN_def backward_tree_def line_tree_simps Let_def)
       (subst Extend_loop.simps,
        simp add: Extend_body_def Extend_candidate_def line_tree_simps below_zero_def free_space_def
          step_toward_def AddNode_def Let_def Extend_nodes_def)
  from a b c d show ?thesis by (intro conjI)
qed

text \<open>
  C7, as the code has it.  On a non-empty tree whose metric and planner are set, whose
  planner has a \<^verbatim>\<open>_diffstatefn\<close>, and a \<^verbatim>\<open>_setstatefn\<close> if it has a \<^verbatim>\<open>_constraintfn\<close>, with
  every node (so the nearest one) farther from the target than 0.1 times the step length
  and with configurations of at least \<^verbatim>\<open>_dof\<close> coordinates: if the oracle rejects the
  segment that the call queries, \<^verbatim>\<open>Extend\<close> returns \<^verbatim>\<open>ET_Failed\<close> and the node sequence of
  the tree is unchanged.  The call ends at its first query, so that segment is the only
  one queried.
\<close>

theorem Extend_rejected_Failed:
  assumes ne: "nodes t \<noteq> []"
    and metric: "distmetricfn t = Some dm" and pl: "planner t = Some params"
    and diff: "diffstatefn params = Some diff"
    and setst: "constraintfn params \<noteq> None \<longrightarrow> setstatefn params \<noteq> None"
    and far: "\<forall>n \<in> set (nodes t). (1 / 10) * fStepLength t < dm target (q n)"
    and sizes: "\<forall>n \<in> set (nodes t). dof t \<le> int (length (q n))
                  \<and> dof t \<le> int (length (diff target (q n)))"
    and rejects: "\<forall>a b. Extend_first_query t target = Some (a, b) \<longrightarrow> CheckCollision params a b"
  shows "\<exists>i t'. Extend t target bOneStep = Some (Inr (ET_Failed, i, t')) \<and> nodes t' = nodes t"
proof -
  from GetNN_nonempty[OF ne metric, of target] obtain ib where
    nn: "GetNN t target = Inr (ib, t\<lparr>fBestDist := dm target (q (nodes t ! nat ib))\<rparr>)"
    and ib: "0 \<le> ib" "nat ib < length (nodes t)"
    by blast
  let ?t1 = "t\<lparr>fBestDist := dm target (q (nodes t ! nat ib))\<rparr>"
  let ?p = "nodes t ! nat ib"
  have mem: "?p \<in> set (nodes t)" using ib(2) by simp
  have d1: "(1 / 10) * fStepLength t < dm target (q ?p)" using far mem by blast
  have sz: "\<not> int (length (diff target (q ?p))) < dof t" "\<not> int (length (q ?p)) < dof t"
    using sizes mem by fastforce+
  have fq: "Extend_first_query t target =
      (case Extend_candidate params dm target ?t1 ?p ib False of
         Inl r \<Rightarrow> None | Inr t2 \<Rightarrow> Some (q ?p, vNewConfig t2))"
    using nn ib metric pl by (simp add: Extend_first_query_def cong: sum.case_cong)
  have "\<exists>t2. Extend_body params dm target bOneStep ?t1 ?p ib False = Inl (Inr (ET_Failed, ib, t2))
          \<and> nodes t2 = nodes t"
  proof (cases "Extend_candidate params dm target ?t1 ?p ib False")
    case (Inl r)
    from Inl d1 sz diff setst have "\<exists>t2. r = Inr (ET_Failed, ib, t2) \<and> nodes t2 = nodes t"
      by (auto simp: Extend_candidate_def Let_def split: if_splits option.splits prod.splits)
    with Inl show ?thesis by (auto simp: Extend_body_def)
  next
    case (Inr t2)
    from Inr d1 sz diff have n2: "nodes t2 = nodes t"
      by (auto simp: Extend_candidate_def Let_def split: if_splits option.splits prod.splits)
    from fq Inr rejects have "CheckCollision params (q ?p) (vNewConfig t2)" by simp
    with Inr n2 show ?thesis by (simp add: Extend_body_def)
  qed
  then obtain t2 where body: "Extend_body params dm target bOneStep ?t1 ?p ib False = Inl (Inr (ET_Failed, ib, t2))"
    and n2: "nodes t2 = nodes t" by blast
  have "Extend_loop params dm target bOneStep ?t1 ?p ib False = Some (Inr (ET_Failed, ib, t2))"
    by (subst Extend_loop.simps) (simp add: body)
  then have "Extend t target bOneStep = Some (Inr (ET_Failed, ib, t2))"
    using nn ib metric pl by (simp add: Extend_def)
  with n2 show ?thesis by simp
qed

theorem Extend_rejected_Failed_witness:
  "(1 / 10) * fStepLength (line_tree blocked_space) < manhattan [1] [0]
   \<and> Extend_first_query (line_tree blocked_space) [1] = Some ([0], [5368709 / 134217728])
   \<and> CheckCollision blocked_space [0] [5368709 / 134217728]
   \<and> (\<exists>i t'. Extend (line_tree blocked_space) [1] False = Some (Inr (ET_Failed, i, t'))
         \<and> nodes t' = nodes (line_tree blocked_space))"
proof -
  have ne: "nodes (line_tree blocked_space) \<noteq> []" by (simp add: line_tree_simps)
  have diff: "diffstatefn blocked_space = Some (map2 (\<lambda>x y. x - y))" by (simp add: blocked_space_def)
  have setst: "constraintfn blocked_space \<noteq> None \<longrightarrow> setstatefn blocked_space \<noteq> None"
    by (simp add: blocked_space_def)
  have far: "\<forall>n \<in> set (nodes (line_tree blocked_space)).
      (1 / 10) * fStepLength (line_tree blocked_space) < manhattan [1] (q n)"
    by (simp add: line_tree_simps manhattan_def)
  have sizes: "\<forall>n \<in> set (nodes (line_tree blocked_space)).
      dof (line_tree blocked_space) \<le> int (length (q n))
      \<and> dof (line_tree blocked_space) \<le> int (length (map2 (\<lambda>x y. x - y) [1] (q n)))"
    by (simp add: line_tree_simps)
  have fq: "Extend_first_query (line_tree blocked_space) [1] = Some ([0], [5368709 / 134217728])"
    by (simp add: Extend_first_query_def GetNN_def line_tree_simps Extend_candidate_def manhattan_def
        blocked_space_def step_toward_def Let_def)
  have rejects: "\<forall>a b. Extend_first_query (line_tree blocked_space) [1] = Some (a, b)
      \<longrightarrow> CheckCollision blocked_space a b"
    by (simp add: blocked_space_def)
  from Extend_rejected_Failed[OF ne line_tree_simps(2) line_tree_simps(3) diff setst far sizes rejects, of False]
    far fq
  show ?thesis by (simp add: line_tree_simps blocked_space_def)
qed

text \<open>
  C7 as stated fails on five non-empty trees, each with the target farther from the root
  than 0.1 times the step length and an oracle, where there is one, that rejects every
  segment.  The tree that \<^verbatim>\<open>InitPlan\<close> and \<^verbatim>\<open>PlanPath\<close> build throws
  \<^verbatim>\<open>bad_function_call\<close> in \<^verbatim>\<open>GetNN\<close>; with the metric only, \<^verbatim>\<open>Extend\<close> throws
  \<^verbatim>\<open>bad_weak_ptr\<close>; with an empty \<^verbatim>\<open>_diffstatefn\<close>, or with a constraint and an empty
  \<^verbatim>\<open>_setstatefn\<close>, it throws \<^verbatim>\<open>bad_function_call\<close> before any query; with \<^verbatim>\<open>_dof\<close> beyond
  the length of the configurations the loop over the coordinates reads past their end.
\<close>

theorem Extend_rejected_throws:
  "nodes bare_tree \<noteq> []
   \<and> Extend bare_tree [1] False = Some (Inl bad_function_call)
   \<and> nodes metric_only_tree \<noteq> []
   \<and> (1 / 10) * fStepLength metric_only_tree < manhattan [1] [0]
   \<and> Extend metric_only_tree [1] False = Some (Inl bad_weak_ptr)
   \<and> nodes (line_tree no_diff_space) \<noteq> []
   \<and> (1 / 10) * fStepLength (line_tree no_diff_space) < manhattan [1] [0]
   \<and> CheckCollision no_diff_space = CheckCollision blocked_space
   \<and> Extend (line_tree no_diff_space) [1] False = Some (Inl bad_function_call)
   \<and> CheckCollision no_setstate_space = CheckCollision blocked_space
   \<and> Extend (line_tree no_setstate_space) [1] False = Some (Inl bad_function_call)
   \<and> nodes wide_tree \<noteq> []
   \<and> (1 / 10) * fStepLength wide_tree < manhattan [1] [0]
   \<and> Extend wide_tree [1] False = Some (Inl undefined_behaviour)"
proof -
  have a: "nodes bare_tree \<noteq> []" "Extend bare_tree [1] False = Some (Inl bad_function_call)"
    by (simp_all add: bare_tree_def Extend_def GetNN_def AddNode_def SpatialTree_new_def)
  have b: "nodes metric_only_tree \<noteq> []"
    "(1 / 10) * fStepLength metric_only_tree < manhattan [1] [0]"
    "Extend metric_only_tree [1] False = Some (Inl bad_weak_ptr)"
    by (simp_all add: metric_only_tree_def Extend_def GetNN_def AddNode_def SpatialTree_new_def
        manhattan_def Let_def)
  have c: "nodes (line_tree no_diff_space) \<noteq> []"
    "(1 / 10) * fStepLength (line_tree no_diff_space) < manhattan [1] [0]"
    "CheckCollision no_diff_space = CheckCollision blocked_space"
    "CheckCollision no_setstate_space = CheckCollision blocked_space"
    by (simp_all add: line_tree_simps manhattan_def no_diff_space_def no_setstate_space_def)
  have d: "Extend (line_tree no_diff_space) [1] False = Some (Inl bad_function_call)"
    by (simp add: Extend_def GetNN_def line_tree_simps Let_def)
       (subst Extend_loop.simps,
        simp add: Extend_body_def Extend_candidate_def line_tree_simps manhattan_def
          no_diff_space_def blocked_space_def Let_def)
  have e: "Extend (line_tree no_setstate_space) [1] False = Some (Inl bad_function_call)"
    by (simp add: Extend_def GetNN_def line_tree_simps Let_def)
       (subst Extend_loop.simps,
        simp add: Extend_body_def Extend_candidate_def line_tree_simps manhattan_def
          no_setstate_space_def blocked_space_def Let_def)
  have f: "nodes wide_tree \<noteq> []" "(1 / 10) * fStepLength wide_tree < manhattan [1] [0]"
    by (simp_all add: wide_tree_def line_tree_simps manhattan_def)
  have g: "Extend wide_tree [1] False = Some (Inl undefined_behaviour)"
    by (simp add: Extend_def GetNN_def wide_tree_def line_tree_simps Let_def)
       (subst Extend_loop.simps,
        simp add: Extend_body_def Extend_candidate_def line_tree_simps manhattan_def
          blocked_space_def Let_def)
  from a b c d e f g show ?thesis by (intro conjI)
qed













section \<open>Properties of the graph\<close>

lemma edgeExists_loop_iff: "edgeExists_loop u xs \<longleftrightarrow> u \<in> set xs"
  by (induction xs) auto

lemma out_edges_list_iff:
  "u \<in> fst ` set (concat (map (\<lambda>(a, b, w). (if a = v then [(b, w)] else []) @ (if b = v then [(a, w)] else [])) es))
     \<longleftrightarrow> list_ex (\<lambda>(a, b, w). (a = u \<and> b = v) \<or> (a = v \<and> b = u)) es"
proof (induction es)
  case Nil
  show ?case by simp
next
  case (Cons e es)
  obtain a b w where e: "e = (a, b, w)" by (cases e)
  from Cons show ?case
    by (auto simp: e image_Un)
qed

lemma adjacent_vertices_iff:
  "u \<in> set (adjacent_vertices v g) \<longleftrightarrow>
     list_ex (\<lambda>(a, b, w). (a = u \<and> b = v) \<or> (a = v \<and> b = u)) (edges g)"
  unfolding adjacent_vertices_def out_edges_def set_map by (rule out_edges_list_iff)

lemma edgeExists_eq:
  "v < num_vertices (p_graph g) \<Longrightarrow> edgeExists g u v = Inr (u = v \<or> edge_between g u v)"
  by (simp add: edgeExists_def edgeExists_loop_iff adjacent_vertices_iff edge_between_def)

lemma edge_between_sym: "edge_between g u v = edge_between g v u"
  by (auto simp: edge_between_def list_ex_iff)

lemma graph_inv_stored:
  "graph_inv g \<Longrightarrow> n \<in> set (node_list g) \<Longrightarrow> \<exists>v. vertex n = Some v \<and> v < num_vertices (p_graph g)"
  by (auto simp: graph_inv_def list_all_iff split: option.splits)

lemma graph_inv_default: "graph_inv SpatialGraph_default"
  by (simp add: graph_inv_def SpatialGraph_default_def)

lemma graph_inv_new: "graph_inv (SpatialGraph_new m_nodes n_thresh)"
  by (simp add: graph_inv_def SpatialGraph_new_def Let_def)

lemma graph_inv_addNode: "graph_inv g \<Longrightarrow> graph_inv (snd (addNode g conf))"
  by (fastforce simp: graph_inv_def addNode_def add_vertex_def list_all_iff split: option.splits)

lemma addEdge_cases:
  "addEdge Eval g u v = Inr (ok, g') \<Longrightarrow>
     g' = g \<or> g' = g\<lparr>p_graph := snd (add_edge u v (Eval (nconfig (getNode g u)) (nconfig (getNode g v))) (p_graph g))\<rparr>"
  by (auto simp: addEdge_def Let_def add_edge_def split: sum.splits if_splits)

lemma graph_inv_addEdge:
  "graph_inv g \<Longrightarrow> addEdge Eval g u v = Inr (ok, g') \<Longrightarrow> graph_inv g'"
  by (drule addEdge_cases) (fastforce simp: graph_inv_def add_edge_def list_all_iff split: option.splits)

lemma built_graph_inv: "built Eval g \<Longrightarrow> graph_inv g"
  by (induction rule: built.induct)
     (simp_all add: graph_inv_default graph_inv_new graph_inv_addNode graph_inv_addEdge)

lemma getNode_fold_none:
  "\<forall>m \<in> set ns. vertex m \<noteq> Some v \<Longrightarrow>
     fold (\<lambda>it n. if vertex it = Some v then it else n) ns d = d"
  by (induction ns arbitrary: d) auto

lemma getNode_fold_stored:
  "distinct (map vertex ns) \<Longrightarrow> n \<in> set ns \<Longrightarrow> vertex n = Some v \<Longrightarrow>
     fold (\<lambda>it n. if vertex it = Some v then it else n) ns d = n"
proof (induction ns arbitrary: d)
  case Nil
  then show ?case by simp
next
  case (Cons x xs)
  show ?case
  proof (cases "x = n")
    case True
    with Cons.prems have "\<forall>m \<in> set xs. vertex m \<noteq> Some v" by (auto simp: image_iff)
    with True Cons.prems show ?thesis by (simp add: getNode_fold_none)
  next
    case False
    with Cons.prems have n: "n \<in> set xs" and "vertex x \<noteq> Some v" by (auto simp: image_iff)
    with Cons show ?thesis by simp
  qed
qed

lemma getNode_stored:
  "graph_inv g \<Longrightarrow> n \<in> set (node_list g) \<Longrightarrow> vertex n = Some v \<Longrightarrow> getNode g v = n"
  by (simp add: graph_inv_def getNode_def getNode_fold_stored)

lemma two_nodes_eq:
  "two_nodes = \<lparr>max_nodes = 100, neigh_thresh = 5,
      node_list = [\<lparr>nconfig = [0], vertex = Some 0\<rparr>, \<lparr>nconfig = [1], vertex = Some 1\<rparr>],
      p_graph = \<lparr>num_vertices = 2, edges = []\<rparr>\<rparr>"
  by (simp add: two_nodes_def addNode_def add_vertex_def SpatialGraph_default_def s_graph_new_def)

lemma built_two_nodes: "built Eval two_nodes"
proof -
  have "two_nodes = snd (addNode (snd (addNode SpatialGraph_default [0])) [1])"
    by (simp add: two_nodes_def split_beta)
  moreover have "built Eval (snd (addNode (snd (addNode SpatialGraph_default [0])) [1]))"
    by (intro built_addNode built_default)
  ultimately show ?thesis by (simp only:)
qed

text \<open>
  C3.  For two stored nodes \<open>u\<close> and \<open>v\<close> of a graph built through the interface,
  \<^verbatim>\<open>addEdge(u, v)\<close> returns true exactly when \<open>u\<close> differs from \<open>v\<close>, no edge
  between them is stored and the distance of their configurations is at most the
  threshold.  Then the graph is the old one with the edge \<open>(u, v)\<close> of that weight
  appended, the edge is there in both directions, and a second call returns false and
  changes nothing.  Otherwise the graph is unchanged.
\<close>

theorem addEdge_succeeds_iff:
  assumes "built Eval g"
    and "nu \<in> set (node_list g)" and "vertex nu = Some u"
    and "nv \<in> set (node_list g)" and "vertex nv = Some v"
  shows "\<exists>g'. addEdge Eval g u v =
            Inr (u \<noteq> v \<and> \<not> edge_between g u v \<and> Eval (nconfig nu) (nconfig nv) \<le> neigh_thresh g, g')
          \<and> (if u \<noteq> v \<and> \<not> edge_between g u v \<and> Eval (nconfig nu) (nconfig nv) \<le> neigh_thresh g
             then g' = g\<lparr>p_graph := (p_graph g)\<lparr>edges := edges (p_graph g) @ [(u, v, Eval (nconfig nu) (nconfig nv))]\<rparr>\<rparr>
                  \<and> edge_between g' u v \<and> edge_between g' v u
                  \<and> addEdge Eval g' u v = Inr (False, g')
             else g' = g)"
proof -
  have inv: "graph_inv g" using assms(1) by (rule built_graph_inv)
  from graph_inv_stored[OF inv assms(2)] assms(3) have u: "u < num_vertices (p_graph g)" by simp
  from graph_inv_stored[OF inv assms(4)] assms(5) have v: "v < num_vertices (p_graph g)" by simp
  have gu: "getNode g u = nu" using inv assms(2,3) by (rule getNode_stored)
  have gv: "getNode g v = nv" using inv assms(4,5) by (rule getNode_stored)
  let ?d = "Eval (nconfig nu) (nconfig nv)"
  let ?g' = "g\<lparr>p_graph := (p_graph g)\<lparr>edges := edges (p_graph g) @ [(u, v, ?d)]\<rparr>\<rparr>"
  show ?thesis
  proof (cases "u \<noteq> v \<and> \<not> edge_between g u v \<and> ?d \<le> neigh_thresh g")
    case True
    have m: "max (num_vertices (p_graph g)) (Suc (max u v)) = num_vertices (p_graph g)"
      using u v by simp
    have first: "addEdge Eval g u v = Inr (True, ?g')"
      using True by (simp add: addEdge_def edgeExists_eq[OF v] gu gv Let_def add_edge_def m)
    have v': "v < num_vertices (p_graph ?g')" using v by simp
    have eb: "edge_between ?g' u v" by (simp add: edge_between_def)
    have again: "addEdge Eval ?g' u v = Inr (False, ?g')"
      using eb by (simp add: addEdge_def edgeExists_eq[OF v'])
    from True first eb again show ?thesis
      by (simp add: edge_between_sym[of _ v u])
  next
    case False
    then have "addEdge Eval g u v = Inr (False, g)"
      by (auto simp: addEdge_def edgeExists_eq[OF v] gu gv Let_def)
    with False show ?thesis by auto
  qed
qed

theorem addEdge_succeeds_iff_witness:
  "\<exists>g'. addEdge manhattan two_nodes 0 1 = Inr (True, g')
      \<and> edge_between g' 0 1 \<and> edge_between g' 1 0
      \<and> addEdge manhattan g' 0 1 = Inr (False, g')"
proof -
  have m0: "\<lparr>nconfig = [0], vertex = Some 0\<rparr> \<in> set (node_list two_nodes)"
    and m1: "\<lparr>nconfig = [1], vertex = Some 1\<rparr> \<in> set (node_list two_nodes)"
    by (simp_all add: two_nodes_eq)
  have c: "(0::nat) \<noteq> 1 \<and> \<not> edge_between two_nodes 0 1
      \<and> manhattan (nconfig \<lparr>nconfig = [0], vertex = Some 0\<rparr>) (nconfig \<lparr>nconfig = [1], vertex = Some 1\<rparr>)
          \<le> neigh_thresh two_nodes"
    by (simp add: two_nodes_eq edge_between_def manhattan_def)
  from addEdge_succeeds_iff[OF built_two_nodes m0 _ m1, of 0 1 manhattan] c
  show ?thesis by auto
qed

lemma addNodes_handles:
  "fst (addNodes g confs) = [num_vertices (p_graph g) ..< num_vertices (p_graph g) + length confs]"
proof (induction confs arbitrary: g)
  case Nil
  show ?case by simp
next
  case (Cons c cs)
  have n: "num_vertices (p_graph (snd (addNode g c))) = Suc (num_vertices (p_graph g))"
    by (simp add: addNode_def add_vertex_def)
  have f: "fst (addNode g c) = num_vertices (p_graph g)"
    by (simp add: addNode_def add_vertex_def)
  have "fst (addNodes g (c # cs)) = num_vertices (p_graph g) # fst (addNodes (snd (addNode g c)) cs)"
    by (simp add: split_beta f)
  also have "\<dots> = num_vertices (p_graph g) # [Suc (num_vertices (p_graph g)) ..< Suc (num_vertices (p_graph g)) + length cs]"
    by (simp only: Cons n)
  also have "\<dots> = [num_vertices (p_graph g) ..< num_vertices (p_graph g) + length (c # cs)]"
    using upt_conv_Cons[of "num_vertices (p_graph g)" "num_vertices (p_graph g) + length (c # cs)"]
    by simp
  finally show ?case .
qed

lemma addNodes_default: "fst (addNodes SpatialGraph_default confs) = [0 ..< length confs]"
  by (simp add: addNodes_handles SpatialGraph_default_def s_graph_new_def)

lemma addNodes_new:
  "0 \<le> m \<Longrightarrow> m < 4294967296 \<Longrightarrow>
     fst (addNodes (SpatialGraph_new m n_thresh) confs) = [nat m ..< nat m + length confs]"
  by (simp add: addNodes_handles SpatialGraph_new_def s_graph_new_def Let_def)

text \<open>
  C2.  \<^verbatim>\<open>SpatialGraph(3, 5)\<close> builds its graph with three vertices already in it, so the
  first call of \<^verbatim>\<open>addNode\<close> returns the handle 3 and the second 4, and these are the
  handles kept in \<^verbatim>\<open>node_list\<close>: not 0 and 1.  (After the default constructor they are
  \<open>0, 1, ...\<close>: lemma \<open>addNodes_default\<close>.)
\<close>

theorem addNode_handles_offset:
  "fst (addNode (SpatialGraph_new 3 5) [0]) = 3
   \<and> fst (addNodes (SpatialGraph_new 3 5) [[0], [1]]) = [3, 4]
   \<and> map vertex (node_list (snd (addNodes (SpatialGraph_new 3 5) [[0], [1]]))) = [Some 3, Some 4]"
  by (simp add: addNode_def SpatialGraph_new_def add_vertex_def s_graph_new_def Let_def)

lemma findNN_loop_filter:
  assumes "list_all (\<lambda>it. case vertex it of None \<Rightarrow> False | Some iv \<Rightarrow> iv < num_vertices (p_graph g)) its"
  shows "findNN_loop Eval g n nn its acc =
     Inr (acc @ filter (\<lambda>it. (case vertex it of None \<Rightarrow> False
                                | Some iv \<Rightarrow> iv \<noteq> n \<and> \<not> edge_between g n iv)
                             \<and> Eval (nconfig nn) (nconfig it) \<le> neigh_thresh g) its)"
  using assms
proof (induction its arbitrary: acc)
  case Nil
  show ?case by simp
next
  case (Cons it its)
  from Cons.prems obtain iv where iv: "vertex it = Some iv" "iv < num_vertices (p_graph g)"
    by (auto split: option.splits)
  from Cons.prems have rest: "list_all (\<lambda>it. case vertex it of None \<Rightarrow> False
      | Some iv \<Rightarrow> iv < num_vertices (p_graph g)) its" by simp
  show ?case
    by (simp add: iv edgeExists_eq[OF iv(2)] Cons.IH[OF rest])
qed

lemma findNN_within_guard:
  assumes "built Eval g" and "1 < length (node_list g)" and "n \<le> length (node_list g)"
  shows "findNN Eval g n s_neighbors =
     Inr (int (length (filter (\<lambda>it. (case vertex it of None \<Rightarrow> False
                                | Some iv \<Rightarrow> iv \<noteq> n \<and> \<not> edge_between g n iv)
                             \<and> Eval (nconfig (getNode g n)) (nconfig it) \<le> neigh_thresh g) (node_list g))),
          filter (\<lambda>it. (case vertex it of None \<Rightarrow> False
                                | Some iv \<Rightarrow> iv \<noteq> n \<and> \<not> edge_between g n iv)
                             \<and> Eval (nconfig (getNode g n)) (nconfig it) \<le> neigh_thresh g) (node_list g))"
proof -
  from built_graph_inv[OF assms(1)]
  have "list_all (\<lambda>it. case vertex it of None \<Rightarrow> False | Some iv \<Rightarrow> iv < num_vertices (p_graph g)) (node_list g)"
    by (simp add: graph_inv_def)
  from findNN_loop_filter[OF this, of Eval n "getNode g n" "[]"] assms(2,3)
  show ?thesis by (simp add: findNN_def Let_def)
qed

text \<open>
  C5.  Two valid handles before the guard \<^verbatim>\<open>n > node_list.size()\<close> of \<^verbatim>\<open>findNN\<close>.  After
  \<^verbatim>\<open>SpatialGraph(2, 5)\<close> and two calls of \<^verbatim>\<open>addNode\<close> the handles are 2 and 3; 3 is
  greater than the node count 2, so \<^verbatim>\<open>findNN(3, ...)\<close> returns 0 whatever the distance to
  the other node.  After the default constructor and two calls of \<^verbatim>\<open>addNode\<close> the
  handles are 0 and 1; 2 is the handle of no node and passes the guard, and with the
  metric \<open>manhattan\<close> the call returns both nodes.
\<close>

theorem findNN_guard:
  "findNN Eval (snd (addNodes (SpatialGraph_new 2 5) [[0], [1]])) 3 [] = Inr (0, [])
   \<and> fst (addNodes (SpatialGraph_new 2 5) [[0], [1]]) = [2, 3]
   \<and> findNN manhattan (snd (addNodes SpatialGraph_default [[0], [1]])) 2 []
       = Inr (2, [\<lparr>nconfig = [0], vertex = Some 0\<rparr>, \<lparr>nconfig = [1], vertex = Some 1\<rparr>])"
  by (simp add: findNN_def addNode_def SpatialGraph_new_def SpatialGraph_default_def add_vertex_def
      s_graph_new_def Let_def getNode_def s_node_default_def edgeExists_def adjacent_vertices_def
      out_edges_def manhattan_def)

section \<open>Properties of the path searches\<close>

lemma discovered_ok_update:
  assumes "discovered_ok pg s st" and "path_between pg s v"
    and "color_map st' = (color_map st)[v := c]"
  shows "discovered_ok pg s st'"
proof (cases "v < length (color_map st)")
  case True
  with assms show ?thesis
    by (auto simp: discovered_ok_def nth_list_update)
next
  case False
  then have "(color_map st)[v := c] = color_map st" by (intro list_update_beyond) simp
  with assms show ?thesis by (simp add: discovered_ok_def)
qed

lemma discovered_ok_init: "discovered_ok pg s (bfs_init n s c0)"
proof -
  have "discovered_ok pg s (bfs_init n s c0\<lparr>color_map := replicate n white_color\<rparr>)"
    by (simp add: discovered_ok_def)
  then show ?thesis
    by (rule discovered_ok_update[OF _ path_refl]) (simp add: bfs_init_def)
qed

lemma relax_discovered:
  assumes "relax reopen h u e st = Inr st'" and "discovered_ok pg s st"
    and "path_between pg s u" and "fst e \<in> set (adjacent_vertices u pg)"
  shows "discovered_ok pg s st'"
proof -
  obtain v w where e: "e = (v, w)" by (cases e)
  from assms(3,4) e have pv: "path_between pg s v" by (auto intro: path_step)
  from assms(1) have "color_map st' = color_map st \<or> (\<exists>c. color_map st' = (color_map st)[v := c])"
    by (auto simp: relax_def e split: if_splits option.splits sum.splits)
  then show ?thesis
  proof
    assume "color_map st' = color_map st"
    with assms(2) show ?thesis by (simp add: discovered_ok_def)
  next
    assume "\<exists>c. color_map st' = (color_map st)[v := c]"
    then obtain c where "color_map st' = (color_map st)[v := c]" ..
    with assms(2) pv show ?thesis by (rule discovered_ok_update)
  qed
qed

lemma relax_all_discovered:
  "relax_all reopen h u es st = Inr st' \<Longrightarrow> discovered_ok pg s st \<Longrightarrow> path_between pg s u
     \<Longrightarrow> fst ` set es \<subseteq> set (adjacent_vertices u pg) \<Longrightarrow> discovered_ok pg s st'"
proof (induction es arbitrary: st)
  case Nil
  then show ?case by simp
next
  case (Cons e es)
  from Cons.prems(1) obtain st1 where r: "relax reopen h u e st = Inr st1"
    and rest: "relax_all reopen h u es st1 = Inr st'"
    by (auto split: sum.splits)
  from Cons.prems(4) have "fst e \<in> set (adjacent_vertices u pg)" by simp
  from relax_discovered[OF r Cons.prems(2) Cons.prems(3) this] have "discovered_ok pg s st1" .
  from Cons.IH[OF rest this Cons.prems(3)] Cons.prems(4) show ?case by simp
qed

lemma finish_vertex_discovered:
  "discovered_ok pg s st \<Longrightarrow> path_between pg s u \<Longrightarrow> discovered_ok pg s (finish_vertex u st)"
  by (erule discovered_ok_update) (simp_all add: finish_vertex_def)

lemma extract_min_discovered:
  "extract_min st = Some u \<Longrightarrow> discovered_ok pg s st \<Longrightarrow> path_between pg s u"
  using extract_min_gray[of st u] by (auto simp: discovered_ok_def)

lemma upt2: "[0..<2] = [0, 1]" by (simp add: upt_rec)

lemma dijkstra_two_nodes:
  "dijkstra_shortest_paths \<lparr>num_vertices = 2, edges = []\<rparr> 0 =
     Inr \<lparr>p_map = [0, 1], d_map = [Some 0, None], cost_map = [Some 0, None],
          color_map = [black_color, white_color]\<rparr>"
  apply (simp add: dijkstra_shortest_paths_def bfs_init_def upt2 numeral_2_eq_2)
  apply (subst dijkstra_loop.simps)
  apply (simp add: extract_min_def upt2 out_edges_def finish_vertex_def numeral_2_eq_2 upt_rec)
  apply (subst dijkstra_loop.simps)
  apply (simp add: extract_min_def upt2 out_edges_def finish_vertex_def numeral_2_eq_2 upt_rec)
  done

lemma two_linked_eq:
  "two_linked = \<lparr>max_nodes = 100, neigh_thresh = 5,
      node_list = [\<lparr>nconfig = [0], vertex = Some 0\<rparr>, \<lparr>nconfig = [1], vertex = Some 1\<rparr>],
      p_graph = \<lparr>num_vertices = 2, edges = [(0, 1, 1)]\<rparr>\<rparr>"
  by (simp add: two_linked_def two_nodes_eq addEdge_def edgeExists_def adjacent_vertices_def out_edges_def
      getNode_def s_node_default_def manhattan_def add_edge_def Let_def)

lemma dijkstra_two_linked:
  "dijkstra_shortest_paths \<lparr>num_vertices = 2, edges = [(0, Suc 0, 1)]\<rparr> 0 =
     Inr \<lparr>p_map = [0, 0], d_map = [Some 0, Some 1], cost_map = [Some 0, Some 1],
          color_map = [black_color, black_color]\<rparr>"
  apply (simp add: dijkstra_shortest_paths_def bfs_init_def upt2 numeral_2_eq_2)
  apply (subst dijkstra_loop.simps)
  apply (simp add: extract_min_def upt2 out_edges_def finish_vertex_def numeral_2_eq_2 upt_rec relax_def)
  apply (subst dijkstra_loop.simps)
  apply (simp add: extract_min_def upt2 out_edges_def finish_vertex_def numeral_2_eq_2 upt_rec relax_def queue_key_def)
  apply (subst dijkstra_loop.simps)
  apply (simp add: extract_min_def upt2 out_edges_def finish_vertex_def numeral_2_eq_2 upt_rec relax_def)
  done

lemma findPathDK_unreached:
  assumes "vertex f = Some s" and "vertex t = Some c" and "s < num_vertices (p_graph g)"
    and "dijkstra_shortest_paths (p_graph g) s = Inr st"
    and "c < length (p_map st)" and "p_map st ! c = c" and "c \<noteq> s"
  shows "findPathDK g f t s_path = Some (Inr (True, f # getNode g c # s_path))"
proof -
  have "findPathDK_walk g (p_map st) c s_path = Some (Inr (c, getNode g c # s_path))"
    using assms(5,6) by (subst findPathDK_walk.simps) (simp add: Let_def)
  with assms show ?thesis by (simp add: findPathDK_def)
qed

lemma findPathDK_neighbour_of_start:
  assumes "vertex f = Some s" and "vertex t = Some c" and "s < num_vertices (p_graph g)"
    and "dijkstra_shortest_paths (p_graph g) s = Inr st"
    and "c < length (p_map st)" and "p_map st ! c = s" and "s < length (p_map st)" and "p_map st ! s = s"
  shows "findPathDK g f t s_path = Some (Inr (False, getNode g c # s_path))"
proof -
  have "findPathDK_walk g (p_map st) c s_path = Some (Inr (s, getNode g c # s_path))"
    using assms(5-8) by (subst findPathDK_walk.simps) (simp add: Let_def)
  with assms show ?thesis by (simp add: findPathDK_def)
qed

lemma pred_ok_init: "pred_ok (bfs_init n s c0)"
  by (simp add: pred_ok_def bfs_init_def)

lemma nth_update_cases: "v < length xs \<Longrightarrow> xs[u := x] ! v = (if u = v then x else xs ! v)"
  by (cases "u = v") auto

lemma relax_pred_ok:
  assumes "relax reopen h u e st = Inr st'" and "pred_ok st"
  shows "pred_ok st'"
proof -
  obtain v w where e: "e = (v, w)" by (cases e)
  from assms show ?thesis
    by (auto simp: relax_def e pred_ok_def nth_update_cases split: if_splits option.splits sum.splits)
qed

lemma relax_all_pred_ok:
  "relax_all reopen h u es st = Inr st' \<Longrightarrow> pred_ok st \<Longrightarrow> pred_ok st'"
proof (induction es arbitrary: st)
  case Nil
  then show ?case by simp
next
  case (Cons e es)
  from Cons.prems(1) obtain st1 where r: "relax reopen h u e st = Inr st1"
    and rest: "relax_all reopen h u es st1 = Inr st'"
    by (auto split: sum.splits)
  from Cons.IH[OF rest relax_pred_ok[OF r Cons.prems(2)]] show ?case .
qed

lemma finish_vertex_pred_ok: "pred_ok st \<Longrightarrow> pred_ok (finish_vertex u st)"
  by (auto simp: pred_ok_def finish_vertex_def nth_update_cases)

lemma dijkstra_loop_inv:
  "dijkstra_loop pg st = Inr st' \<Longrightarrow> discovered_ok pg s st \<Longrightarrow> pred_ok st
     \<Longrightarrow> discovered_ok pg s st' \<and> pred_ok st' \<and> length (p_map st') = length (p_map st)"
proof (induction pg st rule: dijkstra_loop.induct)
  case (1 g st)
  show ?case
  proof (cases "extract_min st")
    case None
    with "1.prems" show ?thesis by (simp add: dijkstra_loop.simps)
  next
    case (Some u)
    from "1.prems"(1) Some obtain st1 where
      r: "relax_all False (\<lambda>v. Inr 0) u (out_edges u g) st = Inr st1"
      and rec: "dijkstra_loop g (finish_vertex u st1) = Inr st'"
      by (subst (asm) dijkstra_loop.simps) (auto split: sum.splits)
    from extract_min_discovered[OF Some "1.prems"(2)] have pu: "path_between g s u" .
    have "fst ` set (out_edges u g) \<subseteq> set (adjacent_vertices u g)"
      by (simp add: adjacent_vertices_def)
    from relax_all_discovered[OF r "1.prems"(2) pu this] have d1: "discovered_ok g s st1" .
    from relax_all_pred_ok[OF r "1.prems"(3)] have p1: "pred_ok st1" .
    from relax_all_black[OF r] have len: "length (color_map st1) = length (color_map st)" by simp
    from "1.IH"[OF Some r rec finish_vertex_discovered[OF d1 pu] finish_vertex_pred_ok[OF p1]]
    have res: "discovered_ok g s st'" "pred_ok st'"
      "length (p_map st') = length (p_map (finish_vertex u st1))" by simp_all
    from p1 "1.prems"(3) len have "length (p_map (finish_vertex u st1)) = length (p_map st)"
      by (simp add: pred_ok_def finish_vertex_def)
    with res show ?thesis by simp
  qed
qed

lemma dijkstra_unreached_fixed_point:
  assumes "dijkstra_shortest_paths pg s = Inr st" and "c < num_vertices pg"
    and "\<not> path_between pg s c"
  shows "c < length (p_map st) \<and> p_map st ! c = c"
proof -
  from dijkstra_loop_inv[OF assms(1)[unfolded dijkstra_shortest_paths_def] discovered_ok_init pred_ok_init]
  have d: "discovered_ok pg s st" and p: "pred_ok st"
    and l: "length (p_map st) = num_vertices pg"
    by (simp_all add: bfs_init_def)
  from l assms(2) have c: "c < length (p_map st)" by simp
  with p have "c < length (color_map st)" by (simp add: pred_ok_def)
  with d assms(3) have "color_map st ! c = white_color" by (auto simp: discovered_ok_def)
  with p c have "p_map st ! c = c" by (auto simp: pred_ok_def)
  with c show ?thesis by simp
qed

lemma findPathDK_no_path:
  assumes "findPathDK g f t s_path = Some (Inr (ok, s_path'))"
    and "vertex f = Some s" and "vertex t = Some c" and "c < num_vertices (p_graph g)"
    and "\<not> path_between (p_graph g) s c"
  shows "ok \<and> s_path' = f # getNode g c # s_path"
proof -
  from assms(1,2) have s: "s < num_vertices (p_graph g)"
    by (auto simp: findPathDK_def split: if_splits)
  from assms(1,2) s obtain st where dj: "dijkstra_shortest_paths (p_graph g) s = Inr st"
    by (auto simp: findPathDK_def split: sum.splits)
  from dijkstra_unreached_fixed_point[OF dj assms(4,5)]
  have c: "c < length (p_map st)" "p_map st ! c = c" by simp_all
  from assms(5) have "c \<noteq> s" by (auto intro: path_refl)
  from findPathDK_unreached[OF assms(2,3) s dj c this] assms(1) show ?thesis by simp
qed

text \<open>
  C1.  \<^verbatim>\<open>findPathDK\<close> between the two nodes of the default graph.  Without an edge the goal
  is its own predecessor, the walk stops there, and the call returns true with the list
  of the two nodes.  With the edge between them the walk stops at the start, and the call
  returns false, leaving the goal alone in the list.
\<close>

theorem findPathDK_inverted:
  "findPathDK two_nodes \<lparr>nconfig = [0], vertex = Some 0\<rparr> \<lparr>nconfig = [1], vertex = Some 1\<rparr> []
     = Some (Inr (True, [\<lparr>nconfig = [0], vertex = Some 0\<rparr>, \<lparr>nconfig = [1], vertex = Some 1\<rparr>]))
   \<and> findPathDK two_linked \<lparr>nconfig = [0], vertex = Some 0\<rparr> \<lparr>nconfig = [1], vertex = Some 1\<rparr> []
     = Some (Inr (False, [\<lparr>nconfig = [1], vertex = Some 1\<rparr>]))"
  apply (simp add: findPathDK_def two_nodes_eq two_linked_eq dijkstra_two_nodes dijkstra_two_linked)
  apply (subst findPathDK_walk.simps)
  apply (subst (2) findPathDK_walk.simps)
  apply (simp add: getNode_def s_node_default_def)
  done

lemma astar_loop_found:
  assumes "astar_loop pg h goal st = Some r"
  shows "discovered_ok pg s st \<longrightarrow> (\<forall>p. r = Inr (found_goal p) \<longrightarrow> path_between pg s goal)"
proof (rule astar_loop.raw_induct[where P = "\<lambda>pg h goal st r.
      discovered_ok pg s st \<longrightarrow> (\<forall>p. r = Inr (found_goal p) \<longrightarrow> path_between pg s goal)", OF _ assms])
  fix loop pg h goal st r
  assume IH: "\<And>pg h goal st r. loop pg h goal st = Some r \<Longrightarrow>
      discovered_ok pg s st \<longrightarrow> (\<forall>p. r = Inr (found_goal p) \<longrightarrow> path_between pg s goal)"
    and body: "(case extract_min st of
        None \<Rightarrow> Some (Inr returned)
      | Some u \<Rightarrow>
          if u = goal then Some (Inr (found_goal (p_map st)))
          else
            (case relax_all True h u (out_edges u pg) st of
               Inl x \<Rightarrow> Some (Inl x)
             | Inr st' \<Rightarrow> loop pg h goal (finish_vertex u st'))) = Some r"
  show "discovered_ok pg s st \<longrightarrow> (\<forall>p. r = Inr (found_goal p) \<longrightarrow> path_between pg s goal)"
  proof (intro impI allI)
    fix p
    assume ok: "discovered_ok pg s st" and r: "r = Inr (found_goal p)"
    show "path_between pg s goal"
    proof (cases "extract_min st")
      case None
      with body r show ?thesis by simp
    next
      case (Some u)
      from extract_min_discovered[OF Some ok] have pu: "path_between pg s u" .
      show ?thesis
      proof (cases "u = goal")
        case True
        with pu show ?thesis by simp
      next
        case False
        show ?thesis
        proof (cases "relax_all True h u (out_edges u pg) st")
          case (Inl x)
          with body Some False r show ?thesis by simp
        next
          case (Inr st')
          have "fst ` set (out_edges u pg) \<subseteq> set (adjacent_vertices u pg)"
            by (simp add: adjacent_vertices_def)
          from relax_all_discovered[OF Inr ok pu this] have "discovered_ok pg s st'" .
          then have ok': "discovered_ok pg s (finish_vertex u st')" using pu
            by (rule finish_vertex_discovered)
          from body Some False Inr have "loop pg h goal (finish_vertex u st') = Some r" by simp
          from IH[OF this] ok' r show ?thesis by blast
        qed
      qed
    qed
  qed
qed

lemma astar_search_found:
  "astar_search pg s h goal = Some (Inr (found_goal p)) \<Longrightarrow> path_between pg s goal"
  using astar_loop_found[of pg h goal "bfs_init (num_vertices pg) s _" "Inr (found_goal p)" s]
  by (auto simp: astar_search_def discovered_ok_init split: sum.splits)

lemma path_between_no_edges: "path_between pg a b \<Longrightarrow> edges pg = [] \<Longrightarrow> a = b"
  by (induction rule: path_between.induct) (simp_all add: adjacent_vertices_def out_edges_def)

lemma findPathAS_two_nodes:
  "findPathAS manhattan two_nodes \<lparr>nconfig = [0], vertex = Some 0\<rparr> \<lparr>nconfig = [1], vertex = Some 1\<rparr> s_path
     = Some (Inr (True, s_path))"
  apply (simp add: findPathAS_def two_nodes_eq astar_search_def distance_heuristic_def bfs_init_def upt2 numeral_2_eq_2)
  apply (subst astar_loop.simps)
  apply (simp add: extract_min_def upt2 out_edges_def finish_vertex_def numeral_2_eq_2 upt_rec)
  apply (subst astar_loop.simps)
  apply (simp add: extract_min_def upt2 out_edges_def finish_vertex_def numeral_2_eq_2 upt_rec)
  done

text \<open>
  C4.  Whenever \<^verbatim>\<open>findPathAS\<close> returns, it returns true; and when no chain of edges
  leads from the start to the goal, the list it was given comes back unchanged.
\<close>

theorem findPathAS_returns_true:
  assumes "findPathAS Eval g f t s_path = Some (Inr (ok, s_path'))"
    and "vertex f = Some start" and "vertex t = Some goal"
  shows "ok \<and> (\<not> path_between (p_graph g) start goal \<longrightarrow> s_path' = s_path)"
proof -
  let ?A = "astar_search (p_graph g) start (distance_heuristic Eval (node_list g) goal) goal"
  from assms obtain ex where A: "?A = Some (Inr ex)"
    by (auto simp: findPathAS_def split: if_splits option.splits sum.splits)
  show ?thesis
  proof (cases ex)
    case returned
    with assms A show ?thesis
      by (auto simp: findPathAS_def split: if_splits)
  next
    case (found_goal p)
    with A have "path_between (p_graph g) start goal" by (simp add: astar_search_found)
    moreover from assms A found_goal have ok
      by (auto simp: findPathAS_def split: if_splits option.splits sum.splits)
    ultimately show ?thesis by simp
  qed
qed

theorem findPathAS_returns_true_witness:
  "findPathAS manhattan two_nodes \<lparr>nconfig = [0], vertex = Some 0\<rparr> \<lparr>nconfig = [1], vertex = Some 1\<rparr>
      [\<lparr>nconfig = [7], vertex = Some 9\<rparr>]
     = Some (Inr (True, [\<lparr>nconfig = [7], vertex = Some 9\<rparr>]))
   \<and> \<not> path_between (p_graph two_nodes) 0 1"
proof -
  have np: "\<not> path_between (p_graph two_nodes) 0 1"
    using path_between_no_edges[of "p_graph two_nodes" 0 1] by (auto simp: two_nodes_eq)
  from findPathAS_returns_true[OF findPathAS_two_nodes, of 0 1 "[\<lparr>nconfig = [7], vertex = Some 9\<rparr>]"] np
    findPathAS_two_nodes[of "[\<lparr>nconfig = [7], vertex = Some 9\<rparr>]"]
  show ?thesis by simp
qed

section \<open>Properties of the tree planner\<close>

lemma Extend_single_near:
  assumes "nodes t = [n]" and "distmetricfn t = Some dm" and "planner t = Some pl"
    and "0 \<le> dm c (q n)" and "dm c (q n) \<le> fStepLength t / 10"
  shows "Extend t c b = Some (Inr (ET_Connected, 0, t\<lparr>fBestDist := dm c (q n)\<rparr>))"
proof -
  have nn: "GetNN t c = Inr (0, t\<lparr>fBestDist := dm c (q n)\<rparr>)"
    using assms(1,2) by (simp add: GetNN_def Let_def)
  have st: "\<not> fStepLength t < dm c (q n)" using assms(4,5) by simp
  have cand: "Extend_candidate pl dm c (t\<lparr>fBestDist := dm c (q n)\<rparr>) n 0 False
          = Inl (Inr (ET_Connected, 0, t\<lparr>fBestDist := dm c (q n)\<rparr>))"
    using st assms(5) by (simp add: Extend_candidate_def)
  have "Extend_loop pl dm c b (t\<lparr>fBestDist := dm c (q n)\<rparr>) n 0 False
          = Some (Inr (ET_Connected, 0, t\<lparr>fBestDist := dm c (q n)\<rparr>))"
    by (subst Extend_loop.simps) (simp add: Extend_body_def cand)
  with nn assms(1,2,3) show ?thesis by (simp add: Extend_def)
qed

lemma sbl_turn:
  "\<exists>pl'. buildTrees_turn 0 0
      (sbl_ready\<lparr>t_start := snd (AddNode tree_ready 0 [0]), t_goal := snd (AddNode tree_ready 1000 [1 / 1000])\<rparr>)
      = Some (Inr pl')
    \<and> b_connected pl' \<and> l_pathnodes pl' = []
    \<and> nodes (t_goal pl') = [\<lparr>parent = 0, q = [0]\<rparr>]
    \<and> nodes (t_start pl') = [\<lparr>parent = 1000, q = [1 / 1000]\<rparr>]"
  by (simp add: buildTrees_turn_def GenSingleSample_def sbl_ready_def InitPlan_def SBLPlanner_new_def
      tree_ready_def SpatialTree_new_def AddNode_def GetConfig_def bind_result_def Extend_single_near
      manhattan_def swap_trees_def)

lemma bind_result_Inr:
  "bind_result m k = Some (Inr y) \<Longrightarrow> \<exists>x. m = Some (Inr x) \<and> k x = Some (Inr y)"
  by (auto simp: bind_result_def split: option.splits sum.splits)

lemma buildTrees_turn_pathnodes:
  assumes "buildTrees_turn start_id goal_id pl = Some (Inr pl')"
  shows "l_pathnodes pl' = l_pathnodes pl"
proof (cases "p_sampler pl (samples_drawn pl)")
  case None
  with assms show ?thesis
    by (auto simp: buildTrees_turn_def GenSingleSample_def swap_trees_def)
next
  case (Some c)
  with assms show ?thesis
    by (auto simp: buildTrees_turn_def GenSingleSample_def swap_trees_def
        dest!: bind_result_Inr split: if_splits)
qed

lemma buildTrees_pathnodes:
  assumes "buildTrees start_id goal_id pl = Some r"
  shows "\<forall>pl'. r = Inr pl' \<longrightarrow> l_pathnodes pl' = l_pathnodes pl \<and> b_connected pl'"
proof (rule buildTrees.raw_induct[where P = "\<lambda>start_id goal_id pl r.
      \<forall>pl'. r = Inr pl' \<longrightarrow> l_pathnodes pl' = l_pathnodes pl \<and> b_connected pl'", OF _ assms])
  fix loop start_id goal_id pl r
  assume IH: "\<And>start_id goal_id pl r. loop start_id goal_id pl = Some r \<Longrightarrow>
      \<forall>pl'. r = Inr pl' \<longrightarrow> l_pathnodes pl' = l_pathnodes pl \<and> b_connected pl'"
    and body: "(if b_connected pl then Some (Inr pl)
      else
        (case buildTrees_turn start_id goal_id pl of
           None \<Rightarrow> None
         | Some (Inl e) \<Rightarrow> Some (Inl e)
         | Some (Inr pl') \<Rightarrow> loop start_id goal_id pl')) = Some r"
  show "\<forall>pl'. r = Inr pl' \<longrightarrow> l_pathnodes pl' = l_pathnodes pl \<and> b_connected pl'"
  proof (cases "b_connected pl")
    case True
    with body show ?thesis by auto
  next
    case False
    show ?thesis
    proof (intro allI impI)
      fix pl'
      assume r: "r = Inr pl'"
      from body False r obtain pl1 where turn: "buildTrees_turn start_id goal_id pl = Some (Inr pl1)"
        and rec: "loop start_id goal_id pl1 = Some r"
        by (auto split: option.splits sum.splits)
      from IH[OF rec] r buildTrees_turn_pathnodes[OF turn]
      show "l_pathnodes pl' = l_pathnodes pl \<and> b_connected pl'" by simp
    qed
  qed
qed

lemma PlanPath_never_traces:
  assumes "PlanPath pl ptraj = Some (Inr (ok, ptraj', pl'))" and "l_pathnodes pl = []"
  shows "ptraj' = ptraj \<and> l_pathnodes pl' = []"
proof (cases "p_parameters pl")
  case None
  with assms show ?thesis by (simp add: PlanPath_def)
next
  case (Some params)
  let ?pl1 = "pl\<lparr>t_start := snd (AddNode (t_start pl) 0 (vinitialconfig params)),
                  t_goal := snd (AddNode (t_goal pl) 1000 (vgoalconfig params))\<rparr>"
  from assms(1) Some obtain pl2 where
    bt: "buildTrees (fst (AddNode (t_start pl) 0 (vinitialconfig params)))
           (fst (AddNode (t_goal pl) 1000 (vgoalconfig params))) ?pl1 = Some (Inr pl2)"
    and em: "(case AddPoints (GetDOF params) (l_pathnodes pl2) ptraj of
               Inl e \<Rightarrow> Some (Inl e)
             | Inr ptraj' \<Rightarrow> Some (Inr (True, ptraj', pl2))) = Some (Inr (ok, ptraj', pl'))"
    by (auto simp: PlanPath_def split_beta dest!: bind_result_Inr)
  from buildTrees_pathnodes[OF bt] assms(2) have "l_pathnodes pl2 = []" by simp
  with em show ?thesis by auto
qed

lemma Extend_no_metric:
  "nodes t \<noteq> [] \<Longrightarrow> distmetricfn t = None \<Longrightarrow> Extend t c b = Some (Inl bad_function_call)"
  by (simp add: Extend_def GetNN_def)

lemma PlanPath_after_InitPlan:
  assumes "sampler 0 = Some c"
  shows "PlanPath (snd (InitPlan SBLPlanner_new params activedof sampler)) ptraj = Some (Inl bad_function_call)"
proof -
  let ?ts = "snd (AddNode SpatialTree_new 0 (vinitialconfig params))"
  let ?tg = "snd (AddNode SpatialTree_new 1000 (vgoalconfig params))"
  let ?pl = "snd (InitPlan SBLPlanner_new params activedof sampler)"
  let ?pl1 = "?pl\<lparr>t_start := ?ts, t_goal := ?tg\<rparr>"
  have ts: "nodes ?ts \<noteq> []" "distmetricfn ?ts = None"
    by (simp_all add: AddNode_def SpatialTree_new_def)
  have gc: "GetConfig ?ts 0 = Inr (vinitialconfig params)"
    by (simp add: GetConfig_def AddNode_def SpatialTree_new_def)
  have smp: "GenSingleSample ?pl1 = (True, ?pl1\<lparr>samples_drawn := 1, v_random_config := c\<rparr>)"
    using assms by (simp add: GenSingleSample_def InitPlan_def SBLPlanner_new_def)
  have turn: "buildTrees_turn 0 0 ?pl1 = Some (Inl bad_function_call)"
    by (simp add: buildTrees_turn_def smp gc Extend_no_metric[OF ts] bind_result_def)
  have nc: "\<not> b_connected ?pl1" by (simp add: InitPlan_def SBLPlanner_new_def)
  have bt: "buildTrees 0 0 ?pl1 = Some (Inl bad_function_call)"
    by (subst buildTrees.simps) (simp add: turn nc)
  have pp: "p_parameters ?pl = Some params" "t_start ?pl = SpatialTree_new" "t_goal ?pl = SpatialTree_new"
    by (simp_all add: InitPlan_def)
  have ix: "fst (AddNode SpatialTree_new 0 (vinitialconfig params)) = 0"
    "fst (AddNode SpatialTree_new 1000 (vgoalconfig params)) = 0"
    by (simp_all add: AddNode_def SpatialTree_new_def)
  show ?thesis
    by (simp add: PlanPath_def pp split_beta ix bt bind_result_def)
qed

text \<open>
  C9.  A run of \<^verbatim>\<open>PlanPath\<close> in which the two trees connect in the first turn of
  \<^verbatim>\<open>buildTrees\<close>: the start tree holds the start, the goal tree the goal, the flag
  \<^verbatim>\<open>b_connected\<close> is set, \<^verbatim>\<open>PlanPath\<close> returns true, and the trajectory has no point.
  Nothing walks the parent chains: \<^verbatim>\<open>l_pathnodes\<close> is never written (lemma
  \<open>PlanPath_never_traces\<close>).
\<close>

theorem PlanPath_emits_nothing:
  "\<exists>pl'. PlanPath sbl_ready [] = Some (Inr (True, [], pl'))
     \<and> b_connected pl'
     \<and> nodes (t_goal pl') = [\<lparr>parent = 0, q = [0]\<rparr>]
     \<and> nodes (t_start pl') = [\<lparr>parent = 1000, q = [1 / 1000]\<rparr>]"
proof -
  let ?pl1 = "sbl_ready\<lparr>t_start := snd (AddNode tree_ready 0 [0]), t_goal := snd (AddNode tree_ready 1000 [1 / 1000])\<rparr>"
  from sbl_turn obtain pl' where turn: "buildTrees_turn 0 0 ?pl1 = Some (Inr pl')"
    and c: "b_connected pl'" and l: "l_pathnodes pl' = []"
    and n: "nodes (t_goal pl') = [\<lparr>parent = 0, q = [0]\<rparr>]"
           "nodes (t_start pl') = [\<lparr>parent = 1000, q = [1 / 1000]\<rparr>]" by blast
  have nc: "\<not> b_connected ?pl1"
    by (simp add: sbl_ready_def InitPlan_def SBLPlanner_new_def)
  have "buildTrees 0 0 pl' = Some (Inr pl')"
    by (subst buildTrees.simps) (simp add: c)
  then have bt: "buildTrees 0 0 ?pl1 = Some (Inr pl')"
    by (subst buildTrees.simps) (simp add: nc turn)
  have pp: "p_parameters sbl_ready = Some \<lparr>vinitialconfig = [0], vgoalconfig = [1 / 1000], GetDOF = 1\<rparr>"
    "t_start sbl_ready = tree_ready" "t_goal sbl_ready = tree_ready"
    by (simp_all add: sbl_ready_def InitPlan_def)
  have ix: "fst (AddNode tree_ready 0 [0]) = 0" "fst (AddNode tree_ready 1000 [1 / 1000]) = 0"
    by (simp_all add: AddNode_def tree_ready_def SpatialTree_new_def)
  have "PlanPath sbl_ready [] = Some (Inr (True, [], pl'))"
    by (simp add: PlanPath_def pp split_beta ix bt bind_result_def l)
  with c n show ?thesis by blast
qed

end
